theory Spec2Isabelle
  imports Main "HOL-Library.Sublist" "HOL-Library.AList"
begin

unbundle bit_operations_syntax

section \<open>Delta baking service: data model\<close>

text \<open>
  Embedding of \<^verbatim>\<open>src/main/content/mods/delta-baking.service.ts\<close>.
  JavaScript strings are \<open>string\<close>; a \<open>char\<close> stands for the code unit of the same
  number (U+0000 to U+00FF).  Log calls have no effect on results and are left out.

  \<open>ModMetadata\<close> is declared in \<^verbatim>\<open>mod-types.ts\<close>; the record has the fields the
  service and its caller read (\<open>id\<close>, here \<open>mod_id\<close>, \<open>name\<close>, \<open>shortname\<close>, \<open>version\<close>,
  \<open>installPath\<close>), all strings.
\<close>

record ModMetadata =
  mod_id :: string
  name :: string
  shortname :: string
  version :: string
  installPath :: string

record DeltaBakingOptions =
  baseGameType :: string
  mods :: "ModMetadata list"
  engineVersion :: string

section \<open>SHA-256 (FIPS 180-4), the digest behind \<open>createHash("sha256")\<close>\<close>

text \<open>
  32-bit words are integers from 0 to \<open>2 ^ 32 - 1\<close>; addition wraps around with the
  \<open>mod\<close> written out, rotation and shift are written with \<open>div\<close> and \<open>mod\<close>.
  Bytes are integers from 0 to 255.
\<close>

definition add32 :: "int \<Rightarrow> int \<Rightarrow> int" where
  "add32 x y = (x + y) mod 4294967296"

definition rotr :: "nat \<Rightarrow> int \<Rightarrow> int" where
  "rotr n x = x div 2 ^ n + (x mod 2 ^ n) * 2 ^ (32 - n)"

definition shr :: "nat \<Rightarrow> int \<Rightarrow> int" where
  "shr n x = x div 2 ^ n"

definition K256 :: "int list" where
  "K256 = [
   1116352408, 1899447441, 3049323471, 3921009573, 961987163, 1508970993,
   2453635748, 2870763221, 3624381080, 310598401, 607225278, 1426881987,
   1925078388, 2162078206, 2614888103, 3248222580, 3835390401, 4022224774,
   264347078, 604807628, 770255983, 1249150122, 1555081692, 1996064986,
   2554220882, 2821834349, 2952996808, 3210313671, 3336571891, 3584528711,
   113926993, 338241895, 666307205, 773529912, 1294757372, 1396182291,
   1695183700, 1986661051, 2177026350, 2456956037, 2730485921, 2820302411,
   3259730800, 3345764771, 3516065817, 3600352804, 4094571909, 275423344,
   430227734, 506948616, 659060556, 883997877, 958139571, 1322822218,
   1537002063, 1747873779, 1955562222, 2024104815, 2227730452, 2361852424,
   2428436474, 2756734187, 3204031479, 3329325298]"

type_synonym hash_state = "int \<times> int \<times> int \<times> int \<times> int \<times> int \<times> int \<times> int"

definition H256 :: hash_state where
  "H256 = (1779033703, 3144134277, 1013904242, 2773480762,
           1359893119, 2600822924, 528734635, 1541459225)"

definition Ch :: "int \<Rightarrow> int \<Rightarrow> int \<Rightarrow> int" where
  "Ch x y z = (x AND y) XOR ((4294967295 - x) AND z)"

definition Maj :: "int \<Rightarrow> int \<Rightarrow> int \<Rightarrow> int" where
  "Maj x y z = (x AND y) XOR (x AND z) XOR (y AND z)"

definition Sigma0 :: "int \<Rightarrow> int" where
  "Sigma0 x = rotr 2 x XOR rotr 13 x XOR rotr 22 x"

definition Sigma1 :: "int \<Rightarrow> int" where
  "Sigma1 x = rotr 6 x XOR rotr 11 x XOR rotr 25 x"

definition sigma0 :: "int \<Rightarrow> int" where
  "sigma0 x = rotr 7 x XOR rotr 18 x XOR shr 3 x"

definition sigma1 :: "int \<Rightarrow> int" where
  "sigma1 x = rotr 17 x XOR rotr 19 x XOR shr 10 x"

text \<open>The message schedule is built newest word first: \<open>ws = [W(t-1), W(t-2), ...]\<close>.\<close>

fun schedule :: "nat \<Rightarrow> int list \<Rightarrow> int list" where
  "schedule 0 ws = ws"
| "schedule (Suc n) ws =
     schedule n
       (add32 (add32 (add32 (sigma1 (ws ! 1)) (ws ! 6)) (sigma0 (ws ! 14))) (ws ! 15) # ws)"

fun round_step :: "int \<Rightarrow> int \<Rightarrow> hash_state \<Rightarrow> hash_state" where
  "round_step t1 t2 (a, b, c, d, e, f, g, h) = (add32 t1 t2, a, b, c, add32 d t1, e, f, g)"

fun rounds :: "int list \<Rightarrow> int list \<Rightarrow> hash_state \<Rightarrow> hash_state" where
  "rounds (k # ks) (w # ws) (a, b, c, d, e, f, g, h) =
     rounds ks ws
       (round_step
          (add32 (add32 (add32 (add32 h (Sigma1 e)) (Ch e f g)) k) w)
          (add32 (Sigma0 a) (Maj a b c))
          (a, b, c, d, e, f, g, h))"
| "rounds ks ws st = st"

fun be32 :: "int list \<Rightarrow> int list" where
  "be32 (a # b # c # d # bs) = (((a * 256 + b) * 256 + c) * 256 + d) # be32 bs"
| "be32 bs = []"

fun add_state :: "hash_state \<Rightarrow> hash_state \<Rightarrow> hash_state" where
  "add_state (a, b, c, d, e, f, g, h) (a', b', c', d', e', f', g', h') =
     (add32 a a', add32 b b', add32 c c', add32 d d',
      add32 e e', add32 f f', add32 g g', add32 h h')"

definition compress :: "hash_state \<Rightarrow> int list \<Rightarrow> hash_state" where
  "compress st block =
     add_state st (rounds K256 (rev (schedule 48 (rev (be32 block)))) st)"

fun blocks :: "hash_state \<Rightarrow> int list \<Rightarrow> hash_state" where
  "blocks st [] = st"
| "blocks st (b # bs) = blocks (compress st (take 64 (b # bs))) (drop 64 (b # bs))"

definition be64 :: "int \<Rightarrow> int list" where
  "be64 n = map (\<lambda>i. (n div 256 ^ i) mod 256) [7, 6, 5, 4, 3, 2, 1, 0]"

definition pad :: "int list \<Rightarrow> int list" where
  "pad bs = bs @ [128] @ replicate ((119 - length bs mod 64) mod 64) 0 @ be64 (8 * int (length bs))"

definition sha256 :: "int list \<Rightarrow> hash_state" where
  "sha256 bs = blocks H256 (pad bs)"

definition hexdigit :: "nat \<Rightarrow> char" where
  "hexdigit n = ''0123456789abcdef'' ! n"

definition hex32 :: "int \<Rightarrow> string" where
  "hex32 w = map (\<lambda>i. hexdigit (nat ((w div 16 ^ i) mod 16))) [7, 6, 5, 4, 3, 2, 1, 0]"

text \<open>\<open>digest("hex")\<close>: the eight state words, eight lower-case hex digits each.\<close>

fun state_words :: "hash_state \<Rightarrow> int list" where
  "state_words (a, b, c, d, e, f, g, h) = [a, b, c, d, e, f, g, h]"

definition sha256_hex :: "int list \<Rightarrow> string" where
  "sha256_hex bs = concat (map hex32 (state_words (sha256 bs)))"

text \<open>\<open>update(content)\<close> hashes the UTF-8 encoding of the string.\<close>

definition utf8_char :: "char \<Rightarrow> int list" where
  "utf8_char c =
     (if (of_char c :: int) < 128 then [of_char c]
      else [192 + of_char c div 64, 128 + of_char c mod 64])"

definition utf8 :: "string \<Rightarrow> int list" where
  "utf8 s = concat (map utf8_char s)"

section \<open>\<open>JSON.stringify\<close> on the hashed object\<close>

text \<open>
  \<open>QuoteJSONString\<close> of ECMA-262: the quote and the backslash are escaped with a
  backslash, the control characters below U+0020 by their short escape or by
  \<open>\<close>\<open>u00XX\<close>, every other code unit stands for itself.
\<close>

definition json_escape :: "char \<Rightarrow> string" where
  "json_escape c =
     (if c = CHR 0x22 then [CHR 0x5C, CHR 0x22]
      else if c = CHR 0x5C then [CHR 0x5C, CHR 0x5C]
      else if c = CHR 0x08 then [CHR 0x5C, CHR ''b'']
      else if c = CHR 0x0C then [CHR 0x5C, CHR ''f'']
      else if c = CHR 0x0A then [CHR 0x5C, CHR ''n'']
      else if c = CHR 0x0D then [CHR 0x5C, CHR ''r'']
      else if c = CHR 0x09 then [CHR 0x5C, CHR ''t'']
      else if (of_char c :: nat) < 32
        then [CHR 0x5C, CHR ''u'', CHR ''0'', CHR ''0'',
              hexdigit (of_char c div 16), hexdigit (of_char c mod 16)]
      else [c])"

definition json_string :: "string \<Rightarrow> string" where
  "json_string s = CHR 0x22 # concat (map json_escape s) @ [CHR 0x22]"

fun json_list :: "string list \<Rightarrow> string" where
  "json_list [] = []"
| "json_list [x] = x"
| "json_list (x # y # ys) = x @ '','' @ json_list (y # ys)"

definition json_mod :: "ModMetadata \<Rightarrow> string" where
  "json_mod m =
     ''{'' @ json_string ''shortname'' @ '':'' @ json_string (shortname m) @
     '','' @ json_string ''version'' @ '':'' @ json_string (version m) @
     '','' @ json_string ''installPath'' @ '':'' @ json_string (installPath m) @ ''}''"

definition combination_content :: "string \<Rightarrow> ModMetadata list \<Rightarrow> string \<Rightarrow> string" where
  "combination_content base ms ev =
     ''{'' @ json_string ''baseGameType'' @ '':'' @ json_string base @
     '','' @ json_string ''engineVersion'' @ '':'' @ json_string ev @
     '','' @ json_string ''mods'' @ '':['' @ json_list (map json_mod ms) @ '']}''"

text \<open>\<open>generateCombinationHash\<close>: the first 16 hex digits of the SHA-256 digest.\<close>

definition generateCombinationHash :: "string \<Rightarrow> ModMetadata list \<Rightarrow> string \<Rightarrow> string" where
  "generateCombinationHash base ms ev =
     take 16 (sha256_hex (utf8 (combination_content base ms ev)))"

text \<open>The three fields of an overlay that enter the hashed object.\<close>

definition hashed_fields :: "ModMetadata \<Rightarrow> string \<times> string \<times> string" where
  "hashed_fields m = (shortname m, version m, installPath m)"

section \<open>Paths\<close>

text \<open>
  A path is the list of its components below the root \<open>/\<close>.  \<open>WRITE_DATA_PATH\<close> (from
  \<^verbatim>\<open>@main/config/app\<close>) and \<open>process.cwd()\<close> are parameters, given as resolved
  absolute paths.  \<open>path.join\<close> appends the segments of its string arguments and
  normalizes \<open>.\<close>, \<open>..\<close> and empty segments; symbolic links are not modelled, so
  the lexical normalization is also the resolution of the operating system.
\<close>

type_synonym path = "string list"

record config =
  WRITE_DATA_PATH :: path
  cwd :: path

fun segments :: "string \<Rightarrow> string list" where
  "segments [] = [[]]"
| "segments (c # cs) =
     (if c = CHR ''/'' then [] # segments cs
      else (case segments cs of [] \<Rightarrow> [[c]] | s # ss \<Rightarrow> (c # s) # ss))"

definition enter :: "path \<Rightarrow> string \<Rightarrow> path" where
  "enter p s = (if s = [] \<or> s = ''.'' then p else if s = ''..'' then butlast p else p @ [s])"

definition path_join :: "path \<Rightarrow> string list \<Rightarrow> path" where
  "path_join p ss = foldl enter p (concat (map segments ss))"

text \<open>
  A path string handed to \<open>fs\<close>: absolute, or relative to the working directory.
  The empty string names no file (\<open>ENOENT\<close>), and a string with a null byte is
  refused before any system call (\<open>ERR_INVALID_ARG_VALUE\<close>).
\<close>

datatype path_error = EmptyPath | NullByte

definition resolve :: "config \<Rightarrow> string \<Rightarrow> path_error + path" where
  "resolve cfg s =
     (case s of
        [] \<Rightarrow> Inl EmptyPath
      | c # cs \<Rightarrow>
          if CHR 0x00 \<in> set s then Inl NullByte
          else if c = CHR ''/'' then Inr (path_join [] [s])
          else Inr (path_join (cwd cfg) [s]))"

text \<open>
  The template string \<^verbatim>\<open>`${bakedGameDir}.sdd`\<close> appends to the last component
  (the suffix has no separator); the root \<open>/\<close> becomes \<open>/.sdd\<close>.
\<close>

definition path_suffixed :: "path \<Rightarrow> string \<Rightarrow> path" where
  "path_suffixed p s = (case rev p of [] \<Rightarrow> [CHR ''/'' # s] | x # xs \<Rightarrow> rev xs @ [x @ s])"

definition endsWith :: "string \<Rightarrow> string \<Rightarrow> bool" where
  "endsWith s suf = (length suf \<le> length s \<and> drop (length s - length suf) s = suf)"

text \<open>
  \<open>archivePath.endsWith(ext)\<close> for an extension without separator: decided by the
  last component; the string of the root is \<open>/\<close>.
\<close>

definition path_endsWith :: "path \<Rightarrow> string \<Rightarrow> bool" where
  "path_endsWith p suf = (case rev p of [] \<Rightarrow> endsWith ''/'' suf | x # xs \<Rightarrow> endsWith (CHR ''/'' # x) suf)"

definition startsWith :: "string \<Rightarrow> string \<Rightarrow> bool" where
  "startsWith s pre = (take (length pre) s = pre)"

text \<open>\<open>toLowerCase\<close> on the code units U+0000 to U+00FF.\<close>

definition toLowerCase_char :: "char \<Rightarrow> char" where
  "toLowerCase_char c =
     (if (65 \<le> (of_char c :: nat) \<and> (of_char c :: nat) \<le> 90) \<or>
         (192 \<le> (of_char c :: nat) \<and> (of_char c :: nat) \<le> 222 \<and> (of_char c :: nat) \<noteq> 215)
      then char_of ((of_char c :: nat) + 32) else c)"

definition toLowerCase :: "string \<Rightarrow> string" where
  "toLowerCase s = map toLowerCase_char s"

fun str_includes :: "string \<Rightarrow> string \<Rightarrow> bool" where
  "str_includes [] sub = (sub = [])"
| "str_includes (c # cs) sub = (prefix sub (c # cs) \<or> str_includes cs sub)"

section \<open>The file system\<close>

text \<open>
  A tree of regular files and directories; a directory lists its entries in the order
  \<open>readdir\<close> reports them.  The world also holds what the code reads but never
  writes: the modification time \<open>stat\<close> reports for a path, the clock of
  \<open>Date.now()\<close>, and the paths whose removal the operating system refuses (the
  failures of \<open>fs.rm\<close>).  \<open>mutations\<close> counts the calls that changed the tree; no
  function of the service reads it.
\<close>

datatype node = File string | Dir "(string \<times> node) list"

datatype error =
    ENOENT | ENOTDIR | EEXIST | EISDIR | EPERM | ERR_INVALID_ARG_VALUE
  | ERR_FS_CP_EINVAL | ERR_FS_CP_DIR_TO_NON_DIR | ERR_FS_CP_NON_DIR_TO_DIR
  | BaseGameNotFound string
  | ZipNotImplemented path

record world =
  root :: node
  mtime :: "path \<Rightarrow> int"
  now :: int
  rm_denied :: "path set"
  mutations :: nat

text \<open>
  The names a directory can list: not empty, without separator, and neither \<open>.\<close> nor
  \<open>..\<close>.  In a well-formed tree every entry has such a name and no directory lists a
  name twice.
\<close>

definition plain :: "string \<Rightarrow> bool" where
  "plain s = (s \<noteq> [] \<and> CHR ''/'' \<notin> set s \<and> s \<noteq> ''.'' \<and> s \<noteq> ''..'')"

fun wf_node :: "node \<Rightarrow> bool" where
  "wf_node (File c) = True"
| "wf_node (Dir es) = (distinct (map fst es) \<and> list_all (\<lambda>(n, c). plain n \<and> wf_node c) es)"

definition fs :: "world \<Rightarrow> node option" where
  "fs w = Some (root w)"

fun lookup :: "node option \<Rightarrow> path \<Rightarrow> node option" where
  "lookup t [] = t"
| "lookup t (x # p) = (case t of Some (Dir es) \<Rightarrow> lookup (map_of es x) p | _ \<Rightarrow> None)"

fun set_entry :: "string \<Rightarrow> node option \<Rightarrow> (string \<times> node) list \<Rightarrow> (string \<times> node) list" where
  "set_entry x None es = AList.delete x es"
| "set_entry x (Some c) es = AList.update x c es"

text \<open>
  One change at a path: walk down to it, apply \<open>f\<close> to what is there, and rebuild the
  directories on the way back.  With \<open>mk\<close> the missing directories on the way are
  created (\<open>recursive: true\<close>); without it a missing one is \<open>ENOENT\<close>.  The second
  component is the tree after the call, also when the call failed.
\<close>

fun modify ::
  "bool \<Rightarrow> path \<Rightarrow> (node option \<Rightarrow> error option \<times> node option) \<Rightarrow> node option
     \<Rightarrow> error option \<times> node option" where
  "modify mk [] f t = f t"
| "modify mk (x # p) f t =
     (case t of
        Some (Dir es) \<Rightarrow>
          (case modify mk p f (map_of es x) of (e, c) \<Rightarrow> (e, Some (Dir (set_entry x c es))))
      | Some (File c) \<Rightarrow> (Some ENOTDIR, t)
      | None \<Rightarrow>
          if mk then (case modify mk p f None of (e, c) \<Rightarrow> (e, Some (Dir (set_entry x c []))))
          else (Some ENOENT, None))"

definition update_fs ::
  "bool \<Rightarrow> path \<Rightarrow> (node option \<Rightarrow> error option \<times> node option) \<Rightarrow> world
     \<Rightarrow> error option \<times> world" where
  "update_fs mk p f w =
     (case modify mk p f (fs w) of
        (e, Some r) \<Rightarrow> (e, w\<lparr>root := r, mutations := Suc (mutations w)\<rparr>)
      | (e, None) \<Rightarrow> (e, w\<lparr>root := Dir [], mutations := Suc (mutations w)\<rparr>))"

subsection \<open>The calls of \<open>fs\<close> the service makes\<close>

definition fileExists :: "world \<Rightarrow> path \<Rightarrow> bool" where
  "fileExists w p = (lookup (fs w) p \<noteq> None)"

record Stats =
  isDirectory :: bool
  mtimeMs :: int

fun is_dir :: "node \<Rightarrow> bool" where
  "is_dir (Dir es) = True"
| "is_dir (File c) = False"

definition stat :: "world \<Rightarrow> path \<Rightarrow> error + Stats" where
  "stat w p =
     (case lookup (fs w) p of
        None \<Rightarrow> Inl ENOENT
      | Some n \<Rightarrow> Inr \<lparr>isDirectory = is_dir n, mtimeMs = mtime w p\<rparr>)"

text \<open>\<open>readdir\<close> with \<open>withFileTypes\<close>: the name and \<open>isDirectory()\<close> of each entry.\<close>

definition readdir_types :: "world \<Rightarrow> path \<Rightarrow> error + (string \<times> bool) list" where
  "readdir_types w p =
     (case lookup (fs w) p of
        None \<Rightarrow> Inl ENOENT
      | Some (File c) \<Rightarrow> Inl ENOTDIR
      | Some (Dir es) \<Rightarrow> Inr (map (\<lambda>(n, c). (n, is_dir c)) es))"

definition readdir :: "world \<Rightarrow> path \<Rightarrow> error + string list" where
  "readdir w p =
     (case lookup (fs w) p of
        None \<Rightarrow> Inl ENOENT
      | Some (File c) \<Rightarrow> Inl ENOTDIR
      | Some (Dir es) \<Rightarrow> Inr (map fst es))"

fun mkdir_leaf :: "node option \<Rightarrow> error option \<times> node option" where
  "mkdir_leaf None = (None, Some (Dir []))"
| "mkdir_leaf (Some (Dir es)) = (None, Some (Dir es))"
| "mkdir_leaf (Some (File c)) = (Some EEXIST, Some (File c))"

text \<open>\<open>fs.mkdir(p, { recursive: true })\<close>\<close>

definition mkdir_recursive :: "path \<Rightarrow> world \<Rightarrow> error option \<times> world" where
  "mkdir_recursive p w = update_fs True p mkdir_leaf w"

fun put_file :: "string \<Rightarrow> node option \<Rightarrow> error option \<times> node option" where
  "put_file c (Some (Dir es)) = (Some EISDIR, Some (Dir es))"
| "put_file c t = (None, Some (File c))"

text \<open>
  \<open>fs.writeFile(p, content)\<close>, and the writing half of \<open>fs.copyFile(src, p)\<close> for a
  source file of that content: the file is created or overwritten.
\<close>

definition writeFile :: "path \<Rightarrow> string \<Rightarrow> world \<Rightarrow> error option \<times> world" where
  "writeFile p c w = update_fs False p (put_file c) w"

text \<open>\<open>fs.rm(p, { recursive: true, force: true })\<close>: a missing path is no error.\<close>

definition rm_recursive :: "path \<Rightarrow> world \<Rightarrow> error option \<times> world" where
  "rm_recursive p w =
     (if \<not> fileExists w p then (None, w)
      else if p \<in> rm_denied w then (Some EPERM, w)
      else update_fs False p (\<lambda>t. (None, None)) w)"

text \<open>
  \<open>fs.cp(src, dest, { recursive: true })\<close> with the default \<open>force\<close>: directories are
  merged, files are overwritten, a directory never replaces a file nor a file a
  directory.
\<close>

fun cp_merge :: "node \<Rightarrow> node option \<Rightarrow> error option \<times> node option"
  and cp_entries ::
    "(string \<times> node) list \<Rightarrow> (string \<times> node) list \<Rightarrow> error option \<times> (string \<times> node) list"
where
  "cp_merge (File c) t =
     (case t of Some (Dir es) \<Rightarrow> (Some ERR_FS_CP_NON_DIR_TO_DIR, t) | _ \<Rightarrow> (None, Some (File c)))"
| "cp_merge (Dir ss) t =
     (case t of
        Some (File c) \<Rightarrow> (Some ERR_FS_CP_DIR_TO_NON_DIR, t)
      | Some (Dir es) \<Rightarrow> (case cp_entries ss es of (e, es') \<Rightarrow> (e, Some (Dir es')))
      | None \<Rightarrow> (case cp_entries ss [] of (e, es') \<Rightarrow> (e, Some (Dir es'))))"
| "cp_entries [] es = (None, es)"
| "cp_entries ((n, s) # ss) es =
     (case cp_merge s (map_of es n) of
        (Some e, c) \<Rightarrow> (Some e, set_entry n c es)
      | (None, c) \<Rightarrow> cp_entries ss (set_entry n c es))"

definition cp_recursive :: "path \<Rightarrow> path \<Rightarrow> world \<Rightarrow> error option \<times> world" where
  "cp_recursive src dest w =
     (case lookup (fs w) src of
        None \<Rightarrow> (Some ENOENT, w)
      | Some s \<Rightarrow>
          if prefix src dest then (Some ERR_FS_CP_EINVAL, w)
          else update_fs True dest (cp_merge s) w)"

section \<open>The service\<close>

record BakedGameResult =
  gameType :: string
  archivePath :: path
  hash :: string

definition bakedGamesDir :: "config \<Rightarrow> path" where
  "bakedGamesDir cfg = path_join (WRITE_DATA_PATH cfg) [''baked-games'']"

text \<open>The constructor: \<open>ensureBakedGamesDirSync\<close> logs a failure and goes on.\<close>

definition ensureBakedGamesDirSync :: "config \<Rightarrow> world \<Rightarrow> world" where
  "ensureBakedGamesDirSync cfg w = snd (mkdir_recursive (bakedGamesDir cfg) w)"

subsection \<open>\<open>isValidGameArchive\<close> and \<open>findBaseGame\<close>\<close>

text \<open>
  A node of the tree is a directory or a regular file, so \<open>stat.isFile()\<close> is the
  negation of \<open>stat.isDirectory()\<close>.  The \<open>catch\<close> turns a failing \<open>stat\<close> into
  \<open>false\<close>.
\<close>

definition isValidGameArchive :: "world \<Rightarrow> path \<Rightarrow> bool" where
  "isValidGameArchive w archive =
     (case stat w archive of
        Inl e \<Rightarrow> False
      | Inr st \<Rightarrow>
          if isDirectory st \<and> path_endsWith archive ''.sdd''
            then fileExists w (path_join archive [''modinfo.lua''])
          else if \<not> isDirectory st \<and>
                  (path_endsWith archive ''.sdz'' \<or> path_endsWith archive ''.sd7'')
            then True
          else False)"

definition isCandidate :: "string \<Rightarrow> string \<Rightarrow> bool" where
  "isCandidate game file =
     (str_includes (toLowerCase file) (toLowerCase game) \<or>
      str_includes (toLowerCase file) ''byar'' \<or>
      str_includes (toLowerCase file) ''beyond'')"

definition possiblePaths :: "config \<Rightarrow> string \<Rightarrow> path list" where
  "possiblePaths cfg engine =
     [path_join (WRITE_DATA_PATH cfg) [''games''],
      path_join (cwd cfg) [''assets'', ''engine'', engine, ''games''],
      path_join (cwd cfg) [''assets'', ''games'']]"

text \<open>The inner loop over the candidates of one directory.\<close>

fun firstValid :: "world \<Rightarrow> path \<Rightarrow> string list \<Rightarrow> path option" where
  "firstValid w searchDir [] = None"
| "firstValid w searchDir (candidate # cs) =
     (if isValidGameArchive w (path_join searchDir [candidate])
      then Some (path_join searchDir [candidate])
      else firstValid w searchDir cs)"

text \<open>The outer loop over the directories; \<open>readdir\<close> is not guarded.\<close>

fun searchDirs :: "world \<Rightarrow> string \<Rightarrow> path list \<Rightarrow> error + path" where
  "searchDirs w game [] = Inl (BaseGameNotFound game)"
| "searchDirs w game (searchDir # ds) =
     (if \<not> fileExists w searchDir then searchDirs w game ds
      else case readdir w searchDir of
        Inl e \<Rightarrow> Inl e
      | Inr files \<Rightarrow>
          (case firstValid w searchDir (filter (isCandidate game) files) of
             Some p \<Rightarrow> Inr p
           | None \<Rightarrow> searchDirs w game ds))"

definition findBaseGame :: "config \<Rightarrow> string \<Rightarrow> string \<Rightarrow> world \<Rightarrow> error + path" where
  "findBaseGame cfg game engine w = searchDirs w game (possiblePaths cfg engine)"

subsection \<open>\<open>extractArchive\<close>, \<open>overlayDirectory\<close>, \<open>applyModDelta\<close>\<close>

definition extractArchive :: "path \<Rightarrow> path \<Rightarrow> world \<Rightarrow> error option \<times> world" where
  "extractArchive archive destDir w =
     (case stat w archive of
        Inl e \<Rightarrow> (Some e, w)
      | Inr st \<Rightarrow>
          if isDirectory st then cp_recursive archive destDir w
          else (Some (ZipNotImplemented archive), w))"

text \<open>
  The loop of \<open>overlayDirectory\<close> over the entries \<open>readdir\<close> returned for the source
  directory: a directory entry is created in the destination and overlaid in turn, any
  other entry is copied over the destination path.  The entries carry the source
  subtrees as they were listed: the recursive call reads the same subtree again as
  long as the source does not lie inside the destination or the destination inside the
  source, which is what the embedding assumes.
\<close>

fun overlayEntries :: "(string \<times> node) list \<Rightarrow> path \<Rightarrow> world \<Rightarrow> error option \<times> world" where
  "overlayEntries [] destDir w = (None, w)"
| "overlayEntries ((entry, Dir sub) # es) destDir w =
     (case mkdir_recursive (path_join destDir [entry]) w of
        (Some e, w1) \<Rightarrow> (Some e, w1)
      | (None, w1) \<Rightarrow>
          (case overlayEntries sub (path_join destDir [entry]) w1 of
             (Some e, w2) \<Rightarrow> (Some e, w2)
           | (None, w2) \<Rightarrow> overlayEntries es destDir w2))"
| "overlayEntries ((entry, File c) # es) destDir w =
     (case writeFile (path_join destDir [entry]) c w of
        (Some e, w1) \<Rightarrow> (Some e, w1)
      | (None, w1) \<Rightarrow> overlayEntries es destDir w1)"

definition overlayDirectory :: "path \<Rightarrow> path \<Rightarrow> world \<Rightarrow> error option \<times> world" where
  "overlayDirectory srcDir destDir w =
     (case lookup (fs w) srcDir of
        None \<Rightarrow> (Some ENOENT, w)
      | Some (File c) \<Rightarrow> (Some ENOTDIR, w)
      | Some (Dir es) \<Rightarrow> overlayEntries es destDir w)"

definition applyModDelta :: "config \<Rightarrow> ModMetadata \<Rightarrow> path \<Rightarrow> world \<Rightarrow> error option \<times> world" where
  "applyModDelta cfg m bakedDir w =
     (case resolve cfg (installPath m) of
        Inl EmptyPath \<Rightarrow> (Some ENOENT, w)
      | Inl NullByte \<Rightarrow> (Some ERR_INVALID_ARG_VALUE, w)
      | Inr modPath \<Rightarrow> overlayDirectory modPath bakedDir w)"

text \<open>Step 2 of \<open>bakeGame\<close>: the loop over \<open>mods\<close>.\<close>

fun applyMods :: "config \<Rightarrow> ModMetadata list \<Rightarrow> path \<Rightarrow> world \<Rightarrow> error option \<times> world" where
  "applyMods cfg [] bakedDir w = (None, w)"
| "applyMods cfg (m # ms) bakedDir w =
     (case applyModDelta cfg m bakedDir w of
        (Some e, w1) \<Rightarrow> (Some e, w1)
      | (None, w1) \<Rightarrow> applyMods cfg ms bakedDir w1)"

subsection \<open>\<open>createBakedGameModInfo\<close>\<close>

fun join_with :: "string \<Rightarrow> string list \<Rightarrow> string" where
  "join_with sep [] = []"
| "join_with sep [x] = x"
| "join_with sep (x # y # ys) = x @ sep @ join_with sep (y # ys)"

fun decimal :: "nat \<Rightarrow> string" where
  "decimal n =
     (if n < 10 then [char_of (48 + n)]
      else decimal (n div 10) @ [char_of (48 + n mod 10)])"

definition modInfoContent :: "string \<Rightarrow> ModMetadata list \<Rightarrow> string" where
  "modInfoContent base ms =
     join_with [CHR 0x0A]
      [''return {'',
       ''    name='' @ [CHR 0x27] @ base @ '' + '' @ join_with '' + '' (map name ms) @ [CHR 0x27] @ '','',
       ''    description='' @ [CHR 0x27] @ ''Baked game combining '' @ base @ '' with '' @
          decimal (length ms) @ '' mod(s)'' @ [CHR 0x27] @ '','',
       ''    version='' @ [CHR 0x27] @ ''baked-1.0.0'' @ [CHR 0x27] @ '','',
       ''    shortname='' @ [CHR 0x27] @ ''baked-'' @ take 8 (generateCombinationHash base ms []) @
          [CHR 0x27] @ '','',
       ''    game='' @ [CHR 0x27] @ ''Beyond All Reason'' @ [CHR 0x27] @ '','',
       ''    shortGame='' @ [CHR 0x27] @ ''BAR'' @ [CHR 0x27] @ '','',
       ''    modtype=1, -- Game type'',
       ''    depend = {'',
       ''        -- Base game dependencies inherited'',
       ''    }'',
       ''}'']"

definition createBakedGameModInfo ::
  "path \<Rightarrow> string \<Rightarrow> ModMetadata list \<Rightarrow> world \<Rightarrow> error option \<times> world" where
  "createBakedGameModInfo bakedDir base ms w =
     writeFile (path_join bakedDir [''modinfo.lua'']) (modInfoContent base ms) w"

subsection \<open>\<open>cleanupBakedGame\<close> and \<open>bakeGame\<close>\<close>

text \<open>The \<open>catch\<close> of \<open>cleanupBakedGame\<close> logs the error of \<open>fs.rm\<close> and drops it.\<close>

definition cleanupBakedGame :: "path \<Rightarrow> world \<Rightarrow> world" where
  "cleanupBakedGame bakedDir w =
     (if fileExists w bakedDir then snd (rm_recursive bakedDir w) else w)"

definition bakedGameName :: "DeltaBakingOptions \<Rightarrow> string" where
  "bakedGameName opts =
     ''baked-'' @ generateCombinationHash (baseGameType opts) (mods opts) (engineVersion opts)"

definition bakedGameDir :: "config \<Rightarrow> DeltaBakingOptions \<Rightarrow> path" where
  "bakedGameDir cfg opts = path_join (bakedGamesDir cfg) [bakedGameName opts]"

definition bakedGameArchive :: "config \<Rightarrow> DeltaBakingOptions \<Rightarrow> path" where
  "bakedGameArchive cfg opts = path_suffixed (bakedGameDir cfg opts) ''.sdd''"

definition bakedGameResult :: "config \<Rightarrow> DeltaBakingOptions \<Rightarrow> BakedGameResult" where
  "bakedGameResult cfg opts =
     \<lparr>gameType = bakedGameName opts,
      archivePath = bakedGameArchive cfg opts,
      hash = generateCombinationHash (baseGameType opts) (mods opts) (engineVersion opts)\<rparr>"

text \<open>The body of the \<open>try\<close> block: steps 1 to 3.\<close>

definition bake_steps :: "config \<Rightarrow> DeltaBakingOptions \<Rightarrow> world \<Rightarrow> error option \<times> world" where
  "bake_steps cfg opts w =
     (case findBaseGame cfg (baseGameType opts) (engineVersion opts) w of
        Inl e \<Rightarrow> (Some e, w)
      | Inr baseGamePath \<Rightarrow>
          (case extractArchive baseGamePath (bakedGameDir cfg opts) w of
             (Some e, w1) \<Rightarrow> (Some e, w1)
           | (None, w1) \<Rightarrow>
               (case applyMods cfg (mods opts) (bakedGameDir cfg opts) w1 of
                  (Some e, w2) \<Rightarrow> (Some e, w2)
                | (None, w2) \<Rightarrow>
                    createBakedGameModInfo (bakedGameDir cfg opts) (baseGameType opts)
                      (mods opts) w2)))"

definition bakeGame ::
  "config \<Rightarrow> DeltaBakingOptions \<Rightarrow> world \<Rightarrow> (error + BakedGameResult) \<times> world" where
  "bakeGame cfg opts w =
     (if fileExists w (bakedGameArchive cfg opts) then (Inr (bakedGameResult cfg opts), w)
      else case bake_steps cfg opts w of
        (None, w1) \<Rightarrow> (Inr (bakedGameResult cfg opts), w1)
      | (Some e, w1) \<Rightarrow> (Inl e, cleanupBakedGame (bakedGameDir cfg opts) w1))"

subsection \<open>\<open>cleanupOldBakedGames\<close>\<close>

text \<open>
  Times are integers of milliseconds.  The loop stops at the first error, which the
  \<open>catch\<close> around the whole body logs and drops.
\<close>

fun sweepEntries ::
  "path \<Rightarrow> int \<Rightarrow> int \<Rightarrow> (string \<times> bool) list \<Rightarrow> world \<Rightarrow> error option \<times> world" where
  "sweepEntries dir maxAge t [] w = (None, w)"
| "sweepEntries dir maxAge t ((entry, isDir) # es) w =
     (if isDir \<and> startsWith entry ''baked-'' then
        (case stat w (path_join dir [entry]) of
           Inl e \<Rightarrow> (Some e, w)
         | Inr st \<Rightarrow>
             if t - mtimeMs st > maxAge then
               (case rm_recursive (path_join dir [entry]) w of
                  (Some e, w1) \<Rightarrow> (Some e, w1)
                | (None, w1) \<Rightarrow> sweepEntries dir maxAge t es w1)
             else sweepEntries dir maxAge t es w)
      else sweepEntries dir maxAge t es w)"

text \<open>The body of the \<open>try\<close> block, and the function with its \<open>catch\<close>.\<close>

definition cleanupOldBakedGames_try :: "config \<Rightarrow> int \<Rightarrow> world \<Rightarrow> error option \<times> world" where
  "cleanupOldBakedGames_try cfg maxAge w =
     (if \<not> fileExists w (bakedGamesDir cfg) then (None, w)
      else case readdir_types w (bakedGamesDir cfg) of
        Inl e \<Rightarrow> (Some e, w)
      | Inr entries \<Rightarrow> sweepEntries (bakedGamesDir cfg) maxAge (now w) entries w)"

definition cleanupOldBakedGames :: "config \<Rightarrow> int \<Rightarrow> world \<Rightarrow> world" where
  "cleanupOldBakedGames cfg maxAge w = snd (cleanupOldBakedGames_try cfg maxAge w)"

text \<open>
  An entry of the cache directory that the sweep removes: a directory whose name
  starts with \<open>baked-\<close> and whose modification time lies more than \<open>maxAge\<close> back.
\<close>

definition stale :: "world \<Rightarrow> int \<Rightarrow> path \<Rightarrow> string \<times> node \<Rightarrow> bool" where
  "stale w maxAge dir e =
     (is_dir (snd e) \<and> startsWith (fst e) ''baked-'' \<and> maxAge < now w - mtime w (dir @ [fst e]))"

definition default_maxAge :: int where
  "default_maxAge = 7 * 24 * 60 * 60 * 1000"

section \<open>A concrete scenario\<close>

definition patch1 :: ModMetadata where
  "patch1 = \<lparr>mod_id = ''patch1'', name = ''Patch One'', shortname = ''p1'', version = ''1'',
              installPath = ''/mods/p1''\<rparr>"

definition patch2 :: ModMetadata where
  "patch2 = \<lparr>mod_id = ''patch2'', name = ''Patch Two'', shortname = ''p2'', version = ''1'',
              installPath = ''/mods/p2''\<rparr>"

definition demo_cfg :: config where
  "demo_cfg = \<lparr>WRITE_DATA_PATH = [''data''], cwd = [''app'']\<rparr>"

definition demo_root :: node where
  "demo_root =
     Dir [(''data'', Dir [(''games'', Dir [(''demo.sdd'',
            Dir [(''modinfo.lua'', File ''base''), (''data.txt'', File ''base'')])])]),
          (''mods'', Dir [(''p1'', Dir [(''modinfo.lua'', File ''v1''), (''data.txt'', File ''v1'')]),
                         (''p2'', Dir [(''modinfo.lua'', File ''v2''), (''data.txt'', File ''v2'')])])]"

definition demo_world :: world where
  "demo_world = \<lparr>root = demo_root, mtime = (\<lambda>p. 0), now = 0, rm_denied = {}, mutations = 0\<rparr>"

definition demo_opts :: "ModMetadata list \<Rightarrow> DeltaBakingOptions" where
  "demo_opts ms = \<lparr>baseGameType = ''demo'', mods = ms, engineVersion = ''ev1''\<rparr>"

definition unpacked_world :: world where
  "unpacked_world =
     \<lparr>root = Dir [(''data'', Dir [(''games'', Dir [(''demo'',
               Dir [(''modinfo.lua'', File ''return {}'')])])])],
      mtime = (\<lambda>p. 0), now = 0, rm_denied = {}, mutations = 0\<rparr>"

text \<open>The same test on an entry as \<open>readdir\<close> lists it, with the times as arguments.\<close>

definition evictable :: "(path \<Rightarrow> int) \<Rightarrow> int \<Rightarrow> int \<Rightarrow> path \<Rightarrow> string \<times> bool \<Rightarrow> bool" where
  "evictable mt t maxAge dir e =
     (snd e \<and> startsWith (fst e) ''baked-'' \<and> t - mt (dir @ [fst e]) > maxAge)"

text \<open>A cache directory, and the same with one entry that cannot be removed.\<close>

definition cache_entries :: "(string \<times> node) list" where
  "cache_entries =
     [(''baked-1111'', Dir [(''modinfo.lua'', File ''m'')]),
      (''baked-2222'', Dir []),
      (''baked-3333'', Dir []),
      (''baked-4444'', Dir []),
      (''baked-notes.txt'', File ''n''),
      (''tmp'', Dir [])]"

definition cache_world :: world where
  "cache_world =
     \<lparr>root = Dir [(''data'', Dir [(''baked-games'', Dir cache_entries)])],
      mtime = (\<lambda>p. if p = [''data'', ''baked-games'', ''baked-2222'']
                     then 1000000000000 - default_maxAge
                     else 1000000000000 - default_maxAge - 1),
      now = 1000000000000,
      rm_denied = {},
      mutations = 0\<rparr>"

definition locked_world :: world where
  "locked_world = cache_world\<lparr>rm_denied := {[''data'', ''baked-games'', ''baked-3333'']}\<rparr>"

definition empty_cache_world :: world where
  "empty_cache_world = cache_world\<lparr>root := Dir [(''data'', Dir [(''baked-games'', Dir [])])]\<rparr>"

section \<open>Evaluation of the digest\<close>

lemma add32_eval:
  "add32 x y =
     (if 0 \<le> x + y \<and> x + y < 4294967296 then x + y
      else if 4294967296 \<le> x + y \<and> x + y < 8589934592 then x + y - 4294967296
      else (x + y) mod 4294967296)"
proof -
  have "s mod 4294967296 = s - 4294967296"
    if "4294967296 \<le> s" "s < 8589934592" for s :: int
  proof -
    have "(s - 4294967296) mod 4294967296 = s - 4294967296"
      using that by (intro mod_pos_pos_trivial) simp_all
    then show ?thesis by simp
  qed
  then show ?thesis by (simp add: add32_def)
qed

lemma rotr_eval: "rotr n x = drop_bit n x + push_bit (32 - n) (take_bit n x)"
  by (simp add: rotr_def drop_bit_eq_div take_bit_eq_mod push_bit_eq_mult)

lemma shr_eval: "shr n x = drop_bit n x"
  by (simp add: shr_def drop_bit_eq_div)

lemma length_Cons_plus: "length (x # xs) = length xs + 1"
  by simp

lemma replicate_numeral: "replicate (numeral k) x = x # replicate (pred_numeral k) x"
  by (simp add: numeral_eq_Suc)

lemma schedule_numeral:
  "schedule (numeral k) ws =
     schedule (pred_numeral k)
       (add32 (add32 (add32 (sigma1 (ws ! 1)) (ws ! 6)) (sigma0 (ws ! 14))) (ws ! 15) # ws)"
  by (simp add: numeral_eq_Suc)

lemmas compress_eval =
  compress_def schedule_numeral sigma0_def sigma1_def rotr_eval shr_eval K256_def
  Sigma0_def Sigma1_def Ch_def Maj_def add32_eval

lemmas hash_eval =
  generateCombinationHash_def combination_content_def json_mod_def json_string_def
  json_escape_def utf8_def utf8_char_def sha256_hex_def sha256_def pad_def be64_def
  length_Cons_plus replicate_numeral hex32_def hexdigit_def

section \<open>The serialization is injective\<close>

lemma hexdigit_inj: "m < 16 \<Longrightarrow> n < 16 \<Longrightarrow> hexdigit m = hexdigit n \<Longrightarrow> m = n"
  unfolding hexdigit_def by (subst (asm) nth_eq_iff_index_eq) simp_all

lemma hexdigit_in: "n < 16 \<Longrightarrow> hexdigit n \<in> set ''0123456789abcdef''"
  unfolding hexdigit_def by (intro nth_mem) simp

lemma escape_u_inj:
  assumes "(of_char c :: nat) < 32" "(of_char d :: nat) < 32"
    and "hexdigit (of_char c div 16) = hexdigit (of_char d div 16)"
    and "hexdigit (of_char c mod 16) = hexdigit (of_char d mod 16)"
  shows "c = d"
proof -
  have "(of_char c :: nat) div 16 = of_char d div 16"
    using assms(1,2) by (intro hexdigit_inj [OF _ _ assms(3)]) simp_all
  moreover have "(of_char c :: nat) mod 16 = of_char d mod 16"
    by (intro hexdigit_inj [OF _ _ assms(4)]) simp_all
  ultimately have "(of_char c :: nat) = of_char d"
    by (metis div_mult_mod_eq)
  then show ?thesis by simp
qed

lemma json_escape_not_quote: "json_escape c @ x \<noteq> CHR 0x22 # y"
  by (simp add: json_escape_def)

lemma json_escape_prefix_free:
  assumes "json_escape c @ x = json_escape d @ y"
  shows "c = d \<and> x = y"
  using assms by (auto simp: json_escape_def split: if_splits dest: escape_u_inj)

lemma json_body_cancel:
  "concat (map json_escape s) @ CHR 0x22 # x = concat (map json_escape t) @ CHR 0x22 # y
   \<Longrightarrow> s = t \<and> x = y"
proof (induction s arbitrary: t)
  case Nil
  show ?case
  proof (cases t)
    case Nil
    with Nil.prems show ?thesis by simp
  next
    case (Cons d t')
    with Nil.prems have "json_escape d @ (concat (map json_escape t') @ CHR 0x22 # y) = CHR 0x22 # x"
      by simp
    with json_escape_not_quote show ?thesis by blast
  qed
next
  case (Cons c s)
  show ?case
  proof (cases t)
    case Nil
    with Cons.prems have "json_escape c @ (concat (map json_escape s) @ CHR 0x22 # x) = CHR 0x22 # y"
      by simp
    with json_escape_not_quote show ?thesis by blast
  next
    case (Cons d t')
    with Cons.prems have
      "json_escape c @ (concat (map json_escape s) @ CHR 0x22 # x) =
       json_escape d @ (concat (map json_escape t') @ CHR 0x22 # y)"
      by simp
    from json_escape_prefix_free [OF this] Cons.IH [of t'] Cons show ?thesis
      by simp
  qed
qed

lemma json_string_cancel:
  "json_string s @ x = json_string t @ y \<Longrightarrow> s = t \<and> x = y"
  using json_body_cancel [of s x t y] by (simp add: json_string_def)

lemma json_mod_cancel:
  assumes "json_mod a @ x = json_mod b @ y"
  shows "hashed_fields a = hashed_fields b \<and> x = y"
proof -
  define ta where "ta = '','' @ json_string ''installPath'' @ '':'' @ json_string (installPath a) @ ''}'' @ x"
  define tb where "tb = '','' @ json_string ''installPath'' @ '':'' @ json_string (installPath b) @ ''}'' @ y"
  define ua where "ua = '','' @ json_string ''version'' @ '':'' @ json_string (version a) @ ta"
  define ub where "ub = '','' @ json_string ''version'' @ '':'' @ json_string (version b) @ tb"
  have "json_mod a @ x = ''{'' @ json_string ''shortname'' @ '':'' @ json_string (shortname a) @ ua"
    by (simp add: json_mod_def ua_def ta_def)
  moreover have "json_mod b @ y = ''{'' @ json_string ''shortname'' @ '':'' @ json_string (shortname b) @ ub"
    by (simp add: json_mod_def ub_def tb_def)
  ultimately have "json_string (shortname a) @ ua = json_string (shortname b) @ ub"
    using assms by simp
  from json_string_cancel [OF this] have 1: "shortname a = shortname b" and "ua = ub"
    by blast+
  then have "json_string (version a) @ ta = json_string (version b) @ tb"
    by (simp add: ua_def ub_def)
  from json_string_cancel [OF this] have 2: "version a = version b" and "ta = tb"
    by blast+
  then have "json_string (installPath a) @ (''}'' @ x) = json_string (installPath b) @ (''}'' @ y)"
    by (simp add: ta_def tb_def)
  from json_string_cancel [OF this] have "installPath a = installPath b" and "x = y"
    by simp_all
  with 1 2 show ?thesis by (simp add: hashed_fields_def)
qed

lemma combination_content_swap:
  assumes "combination_content base [a, b] ev = combination_content base [b, a] ev"
  shows "hashed_fields a = hashed_fields b"
proof -
  from assms have "json_mod a @ ('','' @ json_mod b @ '']}'') = json_mod b @ ('','' @ json_mod a @ '']}'')"
    by (simp add: combination_content_def)
  from json_mod_cancel [OF this] show ?thesis by simp
qed

lemma json_mod_hashed_fields:
  "hashed_fields a = hashed_fields b \<Longrightarrow> json_mod a = json_mod b"
  by (simp add: hashed_fields_def json_mod_def)

lemma map_json_mod_cong:
  "map hashed_fields ms = map hashed_fields ms' \<Longrightarrow> map json_mod ms = map json_mod ms'"
proof (induction ms arbitrary: ms')
  case Nil
  then show ?case by simp
next
  case (Cons m ms)
  then obtain m' ms'' where ms': "ms' = m' # ms''" by (cases ms') auto
  with Cons.prems have "hashed_fields m = hashed_fields m'" "map hashed_fields ms = map hashed_fields ms''"
    by simp_all
  with Cons.IH [of ms''] json_mod_hashed_fields [of m m'] ms' show ?case by simp
qed

lemma json_list_Cons:
  "json_list (x # xs) = x @ (if xs = [] then [] else '','' @ json_list xs)"
  by (cases xs) simp_all

lemma json_mod_first: "json_mod m @ x \<noteq> '']'' @ y"
  by (simp add: json_mod_def)

lemma json_mods_cancel:
  "json_list (map json_mod ms) @ '']'' @ x = json_list (map json_mod ms') @ '']'' @ y
   \<Longrightarrow> map hashed_fields ms = map hashed_fields ms' \<and> x = y"
proof (induction ms arbitrary: ms')
  case Nil
  show ?case
  proof (cases ms')
    case Nil
    with Nil.prems show ?thesis by simp
  next
    case (Cons m' rest')
    with Nil.prems have
      "json_mod m' @ ((if rest' = [] then [] else '','' @ json_list (map json_mod rest')) @ '']'' @ y)
       = '']'' @ x"
      by (simp add: json_list_Cons)
    with json_mod_first show ?thesis by blast
  qed
next
  case (Cons m rest)
  show ?case
  proof (cases ms')
    case Nil
    with Cons.prems have
      "json_mod m @ ((if rest = [] then [] else '','' @ json_list (map json_mod rest)) @ '']'' @ x)
       = '']'' @ y"
      by (simp add: json_list_Cons)
    with json_mod_first show ?thesis by blast
  next
    case (Cons m' rest')
    with Cons.prems have
      "json_mod m @ ((if rest = [] then [] else '','' @ json_list (map json_mod rest)) @ '']'' @ x) =
       json_mod m' @ ((if rest' = [] then [] else '','' @ json_list (map json_mod rest')) @ '']'' @ y)"
      by (simp add: json_list_Cons)
    from json_mod_cancel [OF this]
    have hd: "hashed_fields m = hashed_fields m'"
      and tl: "(if rest = [] then [] else '','' @ json_list (map json_mod rest)) @ '']'' @ x =
               (if rest' = [] then [] else '','' @ json_list (map json_mod rest')) @ '']'' @ y"
      by blast+
    have "map hashed_fields rest = map hashed_fields rest' \<and> x = y"
    proof (cases "rest = []"; cases "rest' = []")
      assume "rest = []" "rest' = []"
      with tl show ?thesis by simp
    next
      assume "rest = []" "rest' \<noteq> []"
      with tl show ?thesis by simp
    next
      assume "rest \<noteq> []" "rest' = []"
      with tl show ?thesis by simp
    next
      assume "rest \<noteq> []" "rest' \<noteq> []"
      with tl have "json_list (map json_mod rest) @ '']'' @ x =
                    json_list (map json_mod rest') @ '']'' @ y"
        by simp
      from Cons.IH [OF this] show ?thesis .
    qed
    with hd Cons show ?thesis by simp
  qed
qed

lemma combination_content_inj:
  assumes "combination_content base ms ev = combination_content base ms' ev"
  shows "map hashed_fields ms = map hashed_fields ms'"
proof -
  from assms have
    "json_list (map json_mod ms) @ '']'' @ ''}'' = json_list (map json_mod ms') @ '']'' @ ''}''"
    by (simp add: combination_content_def)
  from json_mods_cancel [OF this] show ?thesis by simp
qed

section \<open>Digests of the scenario\<close>

lemma demo_block:
  "compress H256
     [123, 34, 98, 97, 115, 101, 71, 97, 109, 101, 84, 121, 112, 101, 34, 58, 34, 100,
      101, 109, 111, 34, 44, 34, 101, 110, 103, 105, 110, 101, 86, 101, 114, 115, 105,
      111, 110, 34, 58, 34, 101, 118, 49, 34, 44, 34, 109, 111, 100, 115, 34, 58, 91,
      123, 34, 115, 104, 111, 114, 116, 110, 97, 109, 101] =
     (2878609135, 988004385, 3004155318, 1713481493, 3029422327, 3098234941, 1598102150,
      3987150684)"
  by (simp add: compress_eval H256_def)

lemma demo_p1_block2:
  "compress (2878609135, 988004385, 3004155318, 1713481493, 3029422327, 3098234941, 1598102150,
      3987150684)
     [34, 58, 34, 112, 49, 34, 44, 34, 118, 101, 114, 115, 105, 111, 110, 34, 58, 34, 49,
      34, 44, 34, 105, 110, 115, 116, 97, 108, 108, 80, 97, 116, 104, 34, 58, 34, 47,
      109, 111, 100, 115, 47, 112, 49, 34, 125, 93, 125, 128, 0, 0, 0, 0, 0, 0, 0, 0, 0,
      0, 0, 0, 0, 3, 128] =
     (1454676726, 3899313031, 2397444530, 1853247780, 481931148, 2865998251, 2076748912,
      2248584253)"
  by (simp add: compress_eval)

lemma demo_p1_moved_block2:
  "compress (2878609135, 988004385, 3004155318, 1713481493, 3029422327, 3098234941, 1598102150,
      3987150684)
     [34, 58, 34, 112, 49, 34, 44, 34, 118, 101, 114, 115, 105, 111, 110, 34, 58, 34, 49,
      34, 44, 34, 105, 110, 115, 116, 97, 108, 108, 80, 97, 116, 104, 34, 58, 34, 47,
      109, 111, 118, 101, 100, 47, 112, 49, 34, 125, 93, 125, 128, 0, 0, 0, 0, 0, 0, 0,
      0, 0, 0, 0, 0, 3, 136] =
     (210683032, 3842568681, 2382206298, 3144711435, 1010567892, 3693606546, 3394051597,
      2940640858)"
  by (simp add: compress_eval)

lemma demo_p1_p2_block2:
  "compress (2878609135, 988004385, 3004155318, 1713481493, 3029422327, 3098234941, 1598102150,
      3987150684)
     [34, 58, 34, 112, 49, 34, 44, 34, 118, 101, 114, 115, 105, 111, 110, 34, 58, 34, 49,
      34, 44, 34, 105, 110, 115, 116, 97, 108, 108, 80, 97, 116, 104, 34, 58, 34, 47,
      109, 111, 100, 115, 47, 112, 49, 34, 125, 44, 123, 34, 115, 104, 111, 114, 116,
      110, 97, 109, 101, 34, 58, 34, 112, 50, 34] =
     (2473467488, 3898487441, 4026307984, 3796701015, 551942496, 804984431, 2801169196,
      306063708)"
  by (simp add: compress_eval)

lemma demo_p1_p2_block3:
  "compress (2473467488, 3898487441, 4026307984, 3796701015, 551942496, 804984431, 2801169196,
      306063708)
     [44, 34, 118, 101, 114, 115, 105, 111, 110, 34, 58, 34, 49, 34, 44, 34, 105, 110,
      115, 116, 97, 108, 108, 80, 97, 116, 104, 34, 58, 34, 47, 109, 111, 100, 115, 47,
      112, 50, 34, 125, 93, 125, 128, 0, 0, 0, 0, 0, 0, 0, 0, 0, 0, 0, 0, 0, 0, 0, 0, 0,
      0, 0, 5, 80] =
     (3841178481, 3346636832, 1923728126, 1117929619, 3261374205, 3059865926, 1772341342,
      145374543)"
  by (simp add: compress_eval)

lemma demo_p2_p1_block2:
  "compress (2878609135, 988004385, 3004155318, 1713481493, 3029422327, 3098234941, 1598102150,
      3987150684)
     [34, 58, 34, 112, 50, 34, 44, 34, 118, 101, 114, 115, 105, 111, 110, 34, 58, 34, 49,
      34, 44, 34, 105, 110, 115, 116, 97, 108, 108, 80, 97, 116, 104, 34, 58, 34, 47,
      109, 111, 100, 115, 47, 112, 50, 34, 125, 44, 123, 34, 115, 104, 111, 114, 116,
      110, 97, 109, 101, 34, 58, 34, 112, 49, 34] =
     (229040318, 3279788600, 4278491144, 990951166, 1160868490, 636674463, 2774651678,
      487320299)"
  by (simp add: compress_eval)

lemma demo_p2_p1_block3:
  "compress (229040318, 3279788600, 4278491144, 990951166, 1160868490, 636674463, 2774651678,
      487320299)
     [44, 34, 118, 101, 114, 115, 105, 111, 110, 34, 58, 34, 49, 34, 44, 34, 105, 110,
      115, 116, 97, 108, 108, 80, 97, 116, 104, 34, 58, 34, 47, 109, 111, 100, 115, 47,
      112, 49, 34, 125, 93, 125, 128, 0, 0, 0, 0, 0, 0, 0, 0, 0, 0, 0, 0, 0, 0, 0, 0, 0,
      0, 0, 5, 80] =
     (4041815623, 1073590483, 3397777339, 4050693393, 3878543513, 3252571731, 962620722,
      2896691520)"
  by (simp add: compress_eval)

lemma hash_demo_p1: "generateCombinationHash ''demo'' [patch1] ''ev1'' = ''56b49af6e86acb87''"
  by (simp add: hash_eval patch1_def demo_block demo_p1_block2 demo_p1_moved_block2 del: list.size(4))

lemma hash_demo_p1_moved:
  "generateCombinationHash ''demo'' [patch1\<lparr>installPath := ''/moved/p1''\<rparr>] ''ev1'' = ''0c8ec498e508f1e9''"
  by (simp add: hash_eval patch1_def demo_block demo_p1_block2 demo_p1_moved_block2 del: list.size(4))

lemma hash_demo_p1_p2: "generateCombinationHash ''demo'' [patch1, patch2] ''ev1'' = ''e4f3bb71c779a020''"
  by (simp add: hash_eval patch1_def patch2_def demo_block demo_p1_p2_block2 demo_p1_p2_block3
    demo_p2_p1_block2 demo_p2_p1_block3 del: list.size(4))

lemma hash_demo_p2_p1: "generateCombinationHash ''demo'' [patch2, patch1] ''ev1'' = ''f0e936473ffdb0d3''"
  by (simp add: hash_eval patch1_def patch2_def demo_block demo_p1_p2_block2 demo_p1_p2_block3
    demo_p2_p1_block2 demo_p2_p1_block3 del: list.size(4))

section \<open>The fingerprint and the overlays\<close>

text \<open>
  Claim C2, as amended.  The key is a function of the base type, the engine version and
  the ordered \<open>(shortname, version, installPath)\<close> triples: two overlay lists with the
  same triples have the same key.  Two lists whose triples differ anywhere (so also two
  lists that agree on every short name and version and differ in an install path) have
  different serializations, and then different keys unless the truncated digests of
  these two serializations collide.
\<close>

theorem hash_of_hashed_fields:
  "(map hashed_fields ms = map hashed_fields ms' \<longrightarrow>
      generateCombinationHash base ms ev = generateCombinationHash base ms' ev) \<and>
   (map hashed_fields ms \<noteq> map hashed_fields ms' \<longrightarrow>
      combination_content base ms ev \<noteq> combination_content base ms' ev \<and>
      (inj_on (\<lambda>c. take 16 (sha256_hex (utf8 c)))
         {combination_content base ms ev, combination_content base ms' ev} \<longrightarrow>
       generateCombinationHash base ms ev \<noteq> generateCombinationHash base ms' ev))"
proof (intro conjI impI)
  assume "map hashed_fields ms = map hashed_fields ms'"
  from map_json_mod_cong [OF this]
  show "generateCombinationHash base ms ev = generateCombinationHash base ms' ev"
    by (simp add: generateCombinationHash_def combination_content_def)
next
  assume ne: "map hashed_fields ms \<noteq> map hashed_fields ms'"
  with combination_content_inj [of base ms ev ms']
  show c: "combination_content base ms ev \<noteq> combination_content base ms' ev"
    by blast
  assume "inj_on (\<lambda>c. take 16 (sha256_hex (utf8 c)))
         {combination_content base ms ev, combination_content base ms' ev}"
  with c show "generateCombinationHash base ms ev \<noteq> generateCombinationHash base ms' ev"
    by (auto simp: generateCombinationHash_def dest: inj_onD)
qed

theorem hash_of_hashed_fields_witness:
  "(map hashed_fields [patch1, patch2] =
      map hashed_fields [patch1\<lparr>name := ''Renamed''\<rparr>, patch2\<lparr>mod_id := ''other''\<rparr>] \<and>
    generateCombinationHash ''demo'' [patch1, patch2] ''ev1'' =
      generateCombinationHash ''demo''
        [patch1\<lparr>name := ''Renamed''\<rparr>, patch2\<lparr>mod_id := ''other''\<rparr>] ''ev1'') \<and>
   (map hashed_fields [patch1] \<noteq> map hashed_fields [patch1\<lparr>installPath := ''/moved/p1''\<rparr>] \<and>
    combination_content ''demo'' [patch1] ''ev1'' \<noteq>
      combination_content ''demo'' [patch1\<lparr>installPath := ''/moved/p1''\<rparr>] ''ev1'' \<and>
    generateCombinationHash ''demo'' [patch1] ''ev1'' \<noteq>
      generateCombinationHash ''demo'' [patch1\<lparr>installPath := ''/moved/p1''\<rparr>] ''ev1'')"
proof -
  have same: "map hashed_fields [patch1, patch2] =
      map hashed_fields [patch1\<lparr>name := ''Renamed''\<rparr>, patch2\<lparr>mod_id := ''other''\<rparr>]"
    by (simp add: hashed_fields_def)
  have moved: "map hashed_fields [patch1] \<noteq>
      map hashed_fields [patch1\<lparr>installPath := ''/moved/p1''\<rparr>]"
    by (simp add: hashed_fields_def patch1_def)
  have "generateCombinationHash ''demo'' [patch1] ''ev1'' \<noteq>
        generateCombinationHash ''demo'' [patch1\<lparr>installPath := ''/moved/p1''\<rparr>] ''ev1''"
    by (simp add: hash_demo_p1 hash_demo_p1_moved)
  then have no_collision: "inj_on (\<lambda>c. take 16 (sha256_hex (utf8 c)))
      {combination_content ''demo'' [patch1] ''ev1'',
       combination_content ''demo'' [patch1\<lparr>installPath := ''/moved/p1''\<rparr>] ''ev1''}"
    by (auto simp: generateCombinationHash_def)
  from same moved no_collision
    hash_of_hashed_fields [of "[patch1, patch2]"
      "[patch1\<lparr>name := ''Renamed''\<rparr>, patch2\<lparr>mod_id := ''other''\<rparr>]" "''demo''" "''ev1''"]
    hash_of_hashed_fields [of "[patch1]" "[patch1\<lparr>installPath := ''/moved/p1''\<rparr>]"
      "''demo''" "''ev1''"]
  show ?thesis by blast
qed

text \<open>
  Claim C2 as stated fails: the same overlay (short name \<open>p1\<close>, version \<open>1\<close>) at
  \<open>/mods/p1\<close> and at \<open>/moved/p1\<close> gives two keys.
\<close>

theorem hash_installPath_counterexample:
  "shortname (patch1\<lparr>installPath := ''/moved/p1''\<rparr>) = shortname patch1 \<and>
   version (patch1\<lparr>installPath := ''/moved/p1''\<rparr>) = version patch1 \<and>
   generateCombinationHash ''demo'' [patch1\<lparr>installPath := ''/moved/p1''\<rparr>] ''ev1'' \<noteq>
     generateCombinationHash ''demo'' [patch1] ''ev1''"
  by (simp add: hash_demo_p1 hash_demo_p1_moved)

text \<open>
  Claim C4.  An overlay is identified by its short name, version and path.  For
  every base type and engine version and every two distinct overlays \<open>a\<close> and \<open>b\<close>,
  the serializations of \<open>[a, b]\<close> and \<open>[b, a]\<close> differ; the keys differ when the
  truncated digests of these two serializations do not collide.
\<close>

theorem hash_order_sensitive:
  assumes "hashed_fields a \<noteq> hashed_fields b"
    and "inj_on (\<lambda>c. take 16 (sha256_hex (utf8 c)))
           {combination_content base [a, b] ev, combination_content base [b, a] ev}"
  shows "combination_content base [a, b] ev \<noteq> combination_content base [b, a] ev \<and>
         generateCombinationHash base [a, b] ev \<noteq> generateCombinationHash base [b, a] ev"
proof -
  from assms(1) combination_content_swap [of base a b ev]
  have ne: "combination_content base [a, b] ev \<noteq> combination_content base [b, a] ev"
    by blast
  with assms(2) show ?thesis
    by (auto simp: generateCombinationHash_def dest: inj_onD)
qed

theorem hash_order_sensitive_witness:
  "hashed_fields patch1 \<noteq> hashed_fields patch2 \<and>
   generateCombinationHash ''demo'' [patch1, patch2] ''ev1'' \<noteq>
     generateCombinationHash ''demo'' [patch2, patch1] ''ev1''"
proof -
  have 1: "hashed_fields patch1 \<noteq> hashed_fields patch2"
    by (simp add: hashed_fields_def patch1_def patch2_def)
  have "generateCombinationHash ''demo'' [patch1, patch2] ''ev1'' \<noteq>
        generateCombinationHash ''demo'' [patch2, patch1] ''ev1''"
    by (simp add: hash_demo_p1_p2 hash_demo_p2_p1)
  then have 2: "inj_on (\<lambda>c. take 16 (sha256_hex (utf8 c)))
      {combination_content ''demo'' [patch1, patch2] ''ev1'',
       combination_content ''demo'' [patch2, patch1] ''ev1''}"
    by (auto simp: generateCombinationHash_def)
  from hash_order_sensitive [OF 1 2] 1 show ?thesis by blast
qed

section \<open>File system lemmas\<close>

lemma segments_plain: "CHR ''/'' \<notin> set s \<Longrightarrow> segments s = [s]"
  by (induction s) auto

lemma path_join_plain: "plain s \<Longrightarrow> path_join p [s] = p @ [s]"
  by (simp add: path_join_def plain_def segments_plain enter_def)

lemma lookup_None [simp]: "lookup None p = None"
  by (cases p) simp_all

lemma lookup_File [simp]: "p \<noteq> [] \<Longrightarrow> lookup (Some (File c)) p = None"
  by (cases p) simp_all

lemma lookup_append: "lookup t (p @ q) = lookup (lookup t p) q"
proof (induction p arbitrary: t)
  case Nil
  show ?case by simp
next
  case (Cons x p)
  show ?case
  proof (cases t)
    case None
    then show ?thesis by simp
  next
    case (Some n)
    then show ?thesis using Cons.IH by (cases n) simp_all
  qed
qed

lemma map_of_set_entry: "map_of (set_entry x c es) y = (if y = x then c else map_of es y)"
  by (cases c) (simp_all add: update_conv' delete_conv')

lemma modify_frame:
  "\<not> prefix p q \<Longrightarrow> \<not> prefix q p \<Longrightarrow> lookup (snd (modify mk p f t)) q = lookup t q"
proof (induction p arbitrary: q t)
  case Nil
  then show ?case by simp
next
  case (Cons x p)
  from Cons.prems obtain y q' where q: "q = y # q'" by (cases q) auto
  show ?case
  proof (cases t)
    case None
    show ?thesis
    proof (cases "y = x")
      case True
      with Cons.prems q have "\<not> prefix p q'" "\<not> prefix q' p" by simp_all
      from Cons.IH [OF this, of None] None q True show ?thesis
        by (auto simp: map_of_set_entry split: prod.splits)
    next
      case False
      with None q show ?thesis
        by (auto simp: map_of_set_entry split: prod.splits)
    qed
  next
    case (Some n)
    show ?thesis
    proof (cases n)
      case (File c)
      with Some show ?thesis by simp
    next
      case (Dir es)
      show ?thesis
      proof (cases "y = x")
        case True
        with Cons.prems q have "\<not> prefix p q'" "\<not> prefix q' p" by simp_all
        from Cons.IH [OF this, of "map_of es x"] Some Dir q True show ?thesis
          by (auto simp: map_of_set_entry split: prod.splits)
      next
        case False
        with Some Dir q show ?thesis
          by (simp add: map_of_set_entry split: prod.splits)
      qed
    qed
  qed
qed

lemma modify_at:
  "fst (modify mk p f t) = None \<Longrightarrow>
     lookup (snd (modify mk p f t)) p = snd (f (lookup t p)) \<and> fst (f (lookup t p)) = None"
proof (induction p arbitrary: t)
  case Nil
  then show ?case by simp
next
  case (Cons x p)
  show ?case
  proof (cases t)
    case None
    with Cons.prems have mk: mk by (simp split: if_splits)
    with None Cons.prems have "fst (modify mk p f None) = None"
      by (simp split: prod.splits)
    from Cons.IH [OF this] None mk show ?thesis
      by (auto simp: map_of_set_entry split: prod.splits)
  next
    case (Some n)
    show ?thesis
    proof (cases n)
      case (File c)
      with Some Cons.prems show ?thesis by simp
    next
      case (Dir es)
      with Some Cons.prems have "fst (modify mk p f (map_of es x)) = None"
        by (simp split: prod.splits)
      from Cons.IH [OF this] Some Dir show ?thesis
        by (auto simp: map_of_set_entry split: prod.splits)
    qed
  qed
qed

lemma modify_Some: "p \<noteq> [] \<Longrightarrow> t \<noteq> None \<Longrightarrow> snd (modify mk p f t) \<noteq> None"
  by (cases p; cases t) (auto split: node.splits prod.splits)

lemma fs_update_fs: "p \<noteq> [] \<Longrightarrow> fs (snd (update_fs mk p f w)) = snd (modify mk p f (fs w))"
  using modify_Some [of p "fs w" mk f]
  by (auto simp: update_fs_def fs_def split: prod.splits option.splits)

lemma fst_update_fs: "fst (update_fs mk p f w) = fst (modify mk p f (fs w))"
  by (auto simp: update_fs_def split: prod.splits option.splits)

lemma update_fs_fields:
  "rm_denied (snd (update_fs mk p f w)) = rm_denied w"
  "mtime (snd (update_fs mk p f w)) = mtime w"
  "now (snd (update_fs mk p f w)) = now w"
  by (auto simp: update_fs_def split: prod.splits option.splits)

lemma wf_node_plain_entry:
  "wf_node (Dir es) \<Longrightarrow> (n, c) \<in> set es \<Longrightarrow> plain n \<and> wf_node c"
  by (auto simp: list_all_iff)

section \<open>Evaluation on concrete worlds\<close>

lemmas fs_eval =
  fs_def fileExists_def stat_def readdir_def readdir_types_def update_fs_def mkdir_recursive_def
  writeFile_def rm_recursive_def cp_recursive_def
  path_join_def enter_def resolve_def path_suffixed_def path_endsWith_def endsWith_def
  startsWith_def toLowerCase_def toLowerCase_char_def

lemmas service_eval =
  bakeGame_def bake_steps_def bakedGameResult_def bakedGameArchive_def bakedGameDir_def
  bakedGameName_def bakedGamesDir_def cleanupBakedGame_def findBaseGame_def possiblePaths_def
  isCandidate_def isValidGameArchive_def extractArchive_def overlayDirectory_def
  applyModDelta_def createBakedGameModInfo_def cleanupOldBakedGames_def cleanupOldBakedGames_try_def

lemmas demo_eval = demo_cfg_def demo_world_def demo_root_def demo_opts_def patch1_def patch2_def

section \<open>The validity check\<close>

text \<open>
  Claim C9, as amended.  \<open>isValidGameArchive\<close> is true for a directory whose path ends
  in \<open>.sdd\<close> and that contains \<open>modinfo.lua\<close>; false for such a directory without
  \<open>modinfo.lua\<close> and for every directory whose path does not end in \<open>.sdd\<close>; for a
  regular file it is true exactly when the path ends in \<open>.sdz\<close> or \<open>.sd7\<close>, whatever
  the file holds; and it is false, not an error, for a path that cannot be statted.
\<close>

theorem isValidGameArchive_cases:
  "isValidGameArchive w p =
     (case lookup (fs w) p of
        None \<Rightarrow> False
      | Some (File c) \<Rightarrow> path_endsWith p ''.sdz'' \<or> path_endsWith p ''.sd7''
      | Some (Dir es) \<Rightarrow> path_endsWith p ''.sdd'' \<and> map_of es ''modinfo.lua'' \<noteq> None)"
proof -
  have "path_join p [''modinfo.lua''] = p @ [''modinfo.lua'']"
    by (rule path_join_plain) (simp add: plain_def)
  then show ?thesis
    by (auto simp: isValidGameArchive_def stat_def fileExists_def lookup_append
        split: option.splits node.splits)
qed

text \<open>
  Claim C9 as stated fails: a directory \<open>demo\<close> in the games folder that contains
  \<open>modinfo.lua\<close> is not valid, and \<open>findBaseGame\<close> does not find it.
\<close>

theorem isValidGameArchive_plain_directory_counterexample:
  "lookup (fs unpacked_world) [''data'', ''games'', ''demo''] =
     Some (Dir [(''modinfo.lua'', File ''return {}'')]) \<and>
   \<not> isValidGameArchive unpacked_world [''data'', ''games'', ''demo''] \<and>
   findBaseGame demo_cfg ''demo'' ''ev1'' unpacked_world = Inl (BaseGameNotFound ''demo'')"
  by (simp add: unpacked_world_def fs_eval service_eval demo_cfg_def)

section \<open>The sweep of the cache directory\<close>

lemma modify_reach:
  "lookup t p \<noteq> None \<Longrightarrow>
     fst (modify mk p f t) = fst (f (lookup t p)) \<and>
     lookup (snd (modify mk p f t)) p = snd (f (lookup t p))"
proof (induction p arbitrary: t)
  case Nil
  then show ?case by simp
next
  case (Cons x p)
  from Cons.prems obtain es where t: "t = Some (Dir es)" and sub: "lookup (map_of es x) p \<noteq> None"
    by (cases t) (auto split: node.splits)
  from Cons.IH [OF sub] t show ?case
    by (auto simp: map_of_set_entry split: prod.splits)
qed

lemma rm_recursive_fields:
  "rm_denied (snd (rm_recursive p w)) = rm_denied w"
  "mtime (snd (rm_recursive p w)) = mtime w"
  "now (snd (rm_recursive p w)) = now w"
  by (simp_all add: rm_recursive_def update_fs_fields)

lemma rm_recursive_frame:
  assumes "\<not> prefix p q" "\<not> prefix q p"
  shows "lookup (fs (snd (rm_recursive p w))) q = lookup (fs w) q"
proof -
  from assms have "p \<noteq> []" by auto
  with assms show ?thesis
    by (simp add: rm_recursive_def fs_update_fs modify_frame)
qed

lemma rm_recursive_removes:
  assumes "p \<noteq> []" "p \<notin> rm_denied w"
  shows "fst (rm_recursive p w) = None \<and> lookup (fs (snd (rm_recursive p w))) p = None"
proof (cases "fileExists w p")
  case False
  then show ?thesis by (simp add: rm_recursive_def fileExists_def)
next
  case True
  then have "lookup (fs w) p \<noteq> None" by (simp add: fileExists_def)
  from modify_reach [OF this, of False "\<lambda>t. (None, None)"] True assms show ?thesis
    by (simp add: rm_recursive_def fs_update_fs fst_update_fs)
qed

lemma rm_recursive_denied:
  "fileExists w p \<Longrightarrow> p \<in> rm_denied w \<Longrightarrow> rm_recursive p w = (Some EPERM, w)"
  by (simp add: rm_recursive_def)

lemma sweepEntries_append:
  "sweepEntries dir maxAge t (xs @ ys) w =
     (case sweepEntries dir maxAge t xs w of
        (Some e, w1) \<Rightarrow> (Some e, w1)
      | (None, w1) \<Rightarrow> sweepEntries dir maxAge t ys w1)"
  by (induction xs arbitrary: w) (auto simp: case_prod_beta split: sum.splits option.splits)

lemma sweepEntries_fields:
  "rm_denied (snd (sweepEntries dir maxAge t ents w)) = rm_denied w \<and>
   mtime (snd (sweepEntries dir maxAge t ents w)) = mtime w"
proof (induction ents arbitrary: w)
  case Nil
  show ?case by simp
next
  case (Cons e ents)
  obtain n d where e: "e = (n, d)" by (cases e)
  show ?case using Cons.IH [of w] Cons.IH [of "snd (rm_recursive (path_join dir [n]) w)"]
    by (auto simp: e rm_recursive_fields case_prod_beta split: sum.splits option.splits)
qed

text \<open>What the sweep leaves alone: every path outside the entries it evicts.\<close>

lemma sweepEntries_frame:
  assumes "\<forall>e \<in> set ents. plain (fst e)"
    and "\<forall>e \<in> set ents. evictable (mtime w) t maxAge dir e \<longrightarrow>
           \<not> prefix (dir @ [fst e]) q \<and> \<not> prefix q (dir @ [fst e])"
  shows "lookup (fs (snd (sweepEntries dir maxAge t ents w))) q = lookup (fs w) q"
  using assms
proof (induction ents arbitrary: w)
  case Nil
  show ?case by simp
next
  case (Cons e ents)
  obtain n d where e: "e = (n, d)" by (cases e)
  from Cons.prems e have pj: "path_join dir [n] = dir @ [n]"
    by (simp add: path_join_plain)
  let ?w1 = "snd (rm_recursive (dir @ [n]) w)"
  have rest: "lookup (fs (snd (sweepEntries dir maxAge t ents w'))) q = lookup (fs w') q"
    if "mtime w' = mtime w" for w'
    using Cons.IH [of w'] Cons.prems that by simp
  show ?case
  proof (cases "evictable (mtime w) t maxAge dir e")
    case False
    with e pj rest [of w] show ?thesis
      by (auto simp: evictable_def stat_def split: option.splits)
  next
    case True
    with Cons.prems have sep: "\<not> prefix (dir @ [n]) q" "\<not> prefix q (dir @ [n])"
      by (simp_all add: e)
    from rest [of ?w1] rm_recursive_frame [OF sep, of w]
    have "lookup (fs (snd (sweepEntries dir maxAge t ents ?w1))) q = lookup (fs w) q"
      by (simp add: rm_recursive_fields)
    with True e pj rest [of w] rm_recursive_frame [OF sep, of w] show ?thesis
      by (auto simp: evictable_def stat_def case_prod_beta split: option.splits)
  qed
qed

lemma sibling_not_prefix: "n \<noteq> m \<Longrightarrow> \<not> prefix (dir @ [n]) (dir @ [m] @ r)"
  by (induction dir) auto

lemma sweepEntries_evicts:
  assumes "\<forall>e \<in> set ents. plain (fst e)"
    and "distinct (map fst ents)"
    and "\<forall>e \<in> set ents. lookup (fs w) (dir @ [fst e]) \<noteq> None"
    and "\<forall>e \<in> set ents. evictable (mtime w) t maxAge dir e \<longrightarrow> dir @ [fst e] \<notin> rm_denied w"
  shows "fst (sweepEntries dir maxAge t ents w) = None \<and>
         (\<forall>e \<in> set ents. evictable (mtime w) t maxAge dir e \<longrightarrow>
            lookup (fs (snd (sweepEntries dir maxAge t ents w))) (dir @ [fst e]) = None)"
  using assms
proof (induction ents arbitrary: w)
  case Nil
  show ?case by simp
next
  case (Cons e ents)
  obtain n d where e: "e = (n, d)" by (cases e)
  from Cons.prems e have pj: "path_join dir [n] = dir @ [n]"
    by (simp add: path_join_plain)
  from Cons.prems e obtain x where ex: "lookup (fs w) (dir @ [n]) = Some x" by auto
  show ?case
  proof (cases "evictable (mtime w) t maxAge dir e")
    case False
    from Cons.IH [of w] Cons.prems
    have "fst (sweepEntries dir maxAge t ents w) = None \<and>
         (\<forall>e \<in> set ents. evictable (mtime w) t maxAge dir e \<longrightarrow>
            lookup (fs (snd (sweepEntries dir maxAge t ents w))) (dir @ [fst e]) = None)"
      by simp
    with False e pj ex show ?thesis
      by (auto simp: evictable_def stat_def)
  next
    case True
    let ?w1 = "snd (rm_recursive (dir @ [n]) w)"
    from True Cons.prems e have nd: "dir @ [n] \<notin> rm_denied w" by simp
    from rm_recursive_removes [OF _ nd]
    have rm: "fst (rm_recursive (dir @ [n]) w) = None" "lookup (fs ?w1) (dir @ [n]) = None"
      by simp_all
    have others: "lookup (fs ?w1) (dir @ [m]) = lookup (fs w) (dir @ [m])" if "m \<noteq> n" for m
      using that sibling_not_prefix [of n m dir "[]"] sibling_not_prefix [of m n dir "[]"]
      by (intro rm_recursive_frame) simp_all
    from Cons.prems e have tail_ne: "\<forall>e' \<in> set ents. fst e' \<noteq> n" by auto
    from Cons.IH [of ?w1] Cons.prems tail_ne others
    have ih: "fst (sweepEntries dir maxAge t ents ?w1) = None \<and>
         (\<forall>e \<in> set ents. evictable (mtime w) t maxAge dir e \<longrightarrow>
            lookup (fs (snd (sweepEntries dir maxAge t ents ?w1))) (dir @ [fst e]) = None)"
      by (simp add: rm_recursive_fields)
    have "lookup (fs (snd (sweepEntries dir maxAge t ents ?w1))) (dir @ [n]) = lookup (fs ?w1) (dir @ [n])"
    proof (rule sweepEntries_frame)
      show "\<forall>e \<in> set ents. plain (fst e)" using Cons.prems by simp
      show "\<forall>e \<in> set ents. evictable (mtime ?w1) t maxAge dir e \<longrightarrow>
           \<not> prefix (dir @ [fst e]) (dir @ [n]) \<and> \<not> prefix (dir @ [n]) (dir @ [fst e])"
        using tail_ne sibling_not_prefix [of _ n dir "[]"] sibling_not_prefix [of n _ dir "[]"]
        by auto
    qed
    with rm have head: "lookup (fs (snd (sweepEntries dir maxAge t ents ?w1))) (dir @ [n]) = None"
      by simp
    from True e pj ex rm ih head show ?thesis
      by (auto simp: evictable_def stat_def case_prod_beta)
  qed
qed

lemma sweepEntries_abort:
  assumes "\<forall>e \<in> set (pre @ [e]). plain (fst e)"
    and "distinct (map fst (pre @ [e]))"
    and "\<forall>e \<in> set (pre @ [e]). lookup (fs w) (dir @ [fst e]) \<noteq> None"
    and "\<forall>e \<in> set pre. evictable (mtime w) t maxAge dir e \<longrightarrow> dir @ [fst e] \<notin> rm_denied w"
    and "evictable (mtime w) t maxAge dir e"
    and "dir @ [fst e] \<in> rm_denied w"
  shows "sweepEntries dir maxAge t (pre @ e # post) w =
           (Some EPERM, snd (sweepEntries dir maxAge t pre w))"
proof -
  let ?w1 = "snd (sweepEntries dir maxAge t pre w)"
  obtain n d where e: "e = (n, d)" by (cases e)
  from assms e have pj: "path_join dir [n] = dir @ [n]"
    by (simp add: path_join_plain)
  from sweepEntries_evicts [where ents = pre and dir = dir and w = w and t = t and maxAge = maxAge] assms
  have pre_ok: "fst (sweepEntries dir maxAge t pre w) = None" by simp
  have "lookup (fs ?w1) (dir @ [n]) = lookup (fs w) (dir @ [n])"
  proof (rule sweepEntries_frame)
    show "\<forall>e \<in> set pre. plain (fst e)" using assms by simp
    from assms e have "\<forall>e' \<in> set pre. fst e' \<noteq> n" by auto
    then show "\<forall>e \<in> set pre. evictable (mtime w) t maxAge dir e \<longrightarrow>
           \<not> prefix (dir @ [fst e]) (dir @ [n]) \<and> \<not> prefix (dir @ [n]) (dir @ [fst e])"
      using sibling_not_prefix [of _ n dir "[]"] sibling_not_prefix [of n _ dir "[]"]
      by auto
  qed
  with assms e obtain x where ex: "lookup (fs ?w1) (dir @ [n]) = Some x" by auto
  then have "fileExists ?w1 (dir @ [n])" by (simp add: fileExists_def)
  moreover from assms e sweepEntries_fields [where ents = pre and dir = dir and w = w and t = t and maxAge = maxAge]
  have "dir @ [n] \<in> rm_denied ?w1" "mtime ?w1 = mtime w" by simp_all
  ultimately have "rm_recursive (dir @ [n]) ?w1 = (Some EPERM, ?w1)"
    by (simp add: rm_recursive_denied)
  with assms(5) e pj ex pre_ok \<open>mtime ?w1 = mtime w\<close> show ?thesis
    by (simp add: sweepEntries_append evictable_def stat_def case_prod_beta
        split: option.splits)
qed

lemma listing_entry:
  assumes "lookup (fs w) dir = Some (Dir es)" "distinct (map fst es)" "e \<in> set es"
  shows "lookup (fs w) (dir @ [fst e]) = Some (snd e)"
proof -
  from assms(2,3) have "map_of es (fst e) = Some (snd e)"
    by (cases e) simp
  with assms(1) show ?thesis by (simp add: lookup_append)
qed

lemma try_is_sweep:
  assumes "lookup (fs w) (bakedGamesDir cfg) = Some (Dir es)"
  shows "cleanupOldBakedGames_try cfg maxAge w =
           sweepEntries (bakedGamesDir cfg) maxAge (now w) (map (\<lambda>(n, c). (n, is_dir c)) es) w"
  using assms by (simp add: cleanupOldBakedGames_try_def fileExists_def readdir_types_def)

lemma evictable_stale:
  "evictable (mtime w) (now w) maxAge dir (case e of (n, c) \<Rightarrow> (n, is_dir c)) = stale w maxAge dir e"
  by (cases e) (auto simp: evictable_def stale_def)

lemma fst_dirent [simp]: "fst (case x of (n, c) \<Rightarrow> (n, is_dir c)) = fst x"
  by (cases x) simp

lemma listing_facts:
  assumes "wf_node (Dir es)"
  shows "\<forall>e \<in> set (map (\<lambda>(n, c). (n, is_dir c)) es). plain (fst e)"
    and "distinct (map fst (map (\<lambda>(n, c). (n, is_dir c)) es))"
proof -
  have "map fst (map (\<lambda>(n, c). (n, is_dir c)) es) = map fst es"
    by (induction es) simp_all
  moreover from assms have "distinct (map fst es)" by simp
  ultimately show "distinct (map fst (map (\<lambda>(n, c). (n, is_dir c)) es))"
    by (simp only:)
  from assms show "\<forall>e \<in> set (map (\<lambda>(n, c). (n, is_dir c)) es). plain (fst e)"
    by (auto simp: list_all_iff)
qed



lemma distinct_fst_neq:
  "distinct (map fst xs) \<Longrightarrow> x \<in> set xs \<Longrightarrow> y \<in> set xs \<Longrightarrow> x \<noteq> y \<Longrightarrow> fst x \<noteq> fst y"
proof
  assume d: "distinct (map fst xs)" and x: "x \<in> set xs" and y: "y \<in> set xs"
    and ne: "x \<noteq> y" and eq: "fst x = fst y"
  from d x have "map_of xs (fst x) = Some (snd x)" by (cases x) simp
  moreover from d y have "map_of xs (fst y) = Some (snd y)" by (cases y) simp
  ultimately have "snd x = snd y" using eq by simp
  with eq ne show False by (simp add: prod_eq_iff)
qed

lemma distinct_fst_apart:
  assumes "distinct (map fst (pre @ post))" "x \<in> set pre" "y \<in> set post"
  shows "fst x \<noteq> fst y"
proof
  assume eq: "fst x = fst y"
  from assms(1) have disj: "fst ` set pre \<inter> fst ` set post = {}" by simp
  from assms(2) have "fst x \<in> fst ` set pre" by (rule imageI)
  moreover from assms(3) eq have "fst x \<in> fst ` set post" by (metis imageI)
  ultimately have "fst x \<in> fst ` set pre \<inter> fst ` set post" by (rule IntI)
  with disj show False by (simp only: empty_iff)
qed

lemmas cache_eval =
  cache_world_def locked_world_def empty_cache_world_def cache_entries_def default_maxAge_def
  stale_def plain_def demo_cfg_def

lemma cache_world_fields:
  "now cache_world = 1000000000000"
  "mtime cache_world p =
     (if p = [''data'', ''baked-games'', ''baked-2222''] then 1000000000000 - default_maxAge
      else 1000000000000 - default_maxAge - 1)"
  "rm_denied cache_world = {}"
  "now locked_world = 1000000000000"
  "mtime locked_world p =
     (if p = [''data'', ''baked-games'', ''baked-2222''] then 1000000000000 - default_maxAge
      else 1000000000000 - default_maxAge - 1)"
  "rm_denied locked_world = {[''data'', ''baked-games'', ''baked-3333'']}"
  by (simp_all add: cache_world_def locked_world_def)



text \<open>
  Claim C8, as amended.  When the removal of a stale entry fails, the \<open>try\<close> block ends
  with that error, which the \<open>catch\<close> drops: the call returns the world as it was at
  the failure.  The failing entry and all entries listed after it are still there, the
  stale ones too; the entries listed before it have been handled.
\<close>

theorem cleanupOldBakedGames_stops_at_failure:
  assumes dir: "lookup (fs w) (bakedGamesDir cfg) = Some (Dir (pre @ e # post))"
    and wf: "wf_node (Dir (pre @ e # post))"
    and e: "stale w maxAge (bakedGamesDir cfg) e" "bakedGamesDir cfg @ [fst e] \<in> rm_denied w"
    and pre: "\<forall>x \<in> set pre. stale w maxAge (bakedGamesDir cfg) x \<longrightarrow>
                bakedGamesDir cfg @ [fst x] \<notin> rm_denied w"
  shows
    "fst (cleanupOldBakedGames_try cfg maxAge w) = Some EPERM \<and>
     (\<forall>x \<in> set (e # post).
        lookup (fs (cleanupOldBakedGames cfg maxAge w)) (bakedGamesDir cfg @ [fst x]) = Some (snd x)) \<and>
     (\<forall>x \<in> set pre.
        lookup (fs (cleanupOldBakedGames cfg maxAge w)) (bakedGamesDir cfg @ [fst x]) =
          (if stale w maxAge (bakedGamesDir cfg) x then None else Some (snd x)))"
proof -
  let ?D = "bakedGamesDir cfg"
  let ?f = "\<lambda>(n, c). (n, is_dir c)"
  let ?es = "pre @ e # post"
  from wf have dist: "distinct (map fst ?es)" by simp
  have names: "map (fst \<circ> ?f) xs = map fst xs" for xs :: "(string \<times> node) list"
    by (induction xs) simp_all
  have ex: "lookup (fs w) (?D @ [fst x]) = Some (snd x)" if "x \<in> set ?es" for x
    using listing_entry [OF dir dist that] .
  have abort: "sweepEntries ?D maxAge (now w) (map ?f pre @ ?f e # map ?f post) w =
           (Some EPERM, snd (sweepEntries ?D maxAge (now w) (map ?f pre) w))"
  proof (rule sweepEntries_abort)
    show "\<forall>x \<in> set (map ?f pre @ [?f e]). plain (fst x)"
      using listing_facts(1) [OF wf] by auto
    show "distinct (map fst (map ?f pre @ [?f e]))"
      using dist by (simp add: names)
    show "\<forall>x \<in> set (map ?f pre @ [?f e]). lookup (fs w) (?D @ [fst x]) \<noteq> None"
      using ex by auto
    show "\<forall>x \<in> set (map ?f pre). evictable (mtime w) (now w) maxAge ?D x \<longrightarrow>
            ?D @ [fst x] \<notin> rm_denied w"
      using pre by (auto simp: evictable_stale simp del: fst_dirent)
    show "evictable (mtime w) (now w) maxAge ?D (?f e)"
      using e(1) by (simp add: evictable_stale)
    show "?D @ [fst (?f e)] \<in> rm_denied w" using e(2) by simp
  qed
  with try_is_sweep [OF dir, of maxAge]
  have tried: "cleanupOldBakedGames_try cfg maxAge w =
      (Some EPERM, snd (sweepEntries ?D maxAge (now w) (map ?f pre) w))"
    by simp
  then have res: "cleanupOldBakedGames cfg maxAge w = snd (sweepEntries ?D maxAge (now w) (map ?f pre) w)"
    by (simp add: cleanupOldBakedGames_def)
  have pre_plain: "\<forall>x \<in> set (map ?f pre). plain (fst x)"
    using listing_facts(1) [OF wf] by auto
  have later: "lookup (fs (cleanupOldBakedGames cfg maxAge w)) (?D @ [fst x]) = Some (snd x)"
    if "x \<in> set (e # post)" for x
  proof -
    have "lookup (fs (snd (sweepEntries ?D maxAge (now w) (map ?f pre) w))) (?D @ [fst x]) =
          lookup (fs w) (?D @ [fst x])"
    proof (rule sweepEntries_frame [OF pre_plain], intro ballI impI)
      fix y assume "y \<in> set (map ?f pre)"
      then obtain z where z: "z \<in> set pre" "y = ?f z" by auto
      from distinct_fst_apart [OF dist z(1) that] z(2) have "fst y \<noteq> fst x" by simp
      then show "\<not> prefix (?D @ [fst y]) (?D @ [fst x]) \<and> \<not> prefix (?D @ [fst x]) (?D @ [fst y])"
        using sibling_not_prefix [of "fst y" "fst x" ?D "[]"]
          sibling_not_prefix [of "fst x" "fst y" ?D "[]"] by simp
    qed
    with res ex [of x] that show ?thesis by auto
  qed
  have earlier: "lookup (fs (cleanupOldBakedGames cfg maxAge w)) (?D @ [fst x]) =
          (if stale w maxAge ?D x then None else Some (snd x))"
    if x: "x \<in> set pre" for x
  proof (cases "stale w maxAge ?D x")
    case True
    have "fst (sweepEntries ?D maxAge (now w) (map ?f pre) w) = None \<and>
         (\<forall>y \<in> set (map ?f pre). evictable (mtime w) (now w) maxAge ?D y \<longrightarrow>
            lookup (fs (snd (sweepEntries ?D maxAge (now w) (map ?f pre) w))) (?D @ [fst y]) = None)"
    proof (rule sweepEntries_evicts [OF pre_plain])
      show "distinct (map fst (map ?f pre))" using dist by (simp add: names)
      show "\<forall>y \<in> set (map ?f pre). lookup (fs w) (?D @ [fst y]) \<noteq> None"
        using ex by auto
      show "\<forall>y \<in> set (map ?f pre). evictable (mtime w) (now w) maxAge ?D y \<longrightarrow>
            ?D @ [fst y] \<notin> rm_denied w"
        using pre by (auto simp: evictable_stale simp del: fst_dirent)
    qed
    moreover from x have "?f x \<in> set (map ?f pre)" by simp
    ultimately have "lookup (fs (snd (sweepEntries ?D maxAge (now w) (map ?f pre) w)))
        (?D @ [fst (?f x)]) = None"
      using True evictable_stale [of w maxAge ?D x] by blast
    with res True show ?thesis by simp
  next
    case False
    have "lookup (fs (snd (sweepEntries ?D maxAge (now w) (map ?f pre) w))) (?D @ [fst x]) =
          lookup (fs w) (?D @ [fst x])"
    proof (rule sweepEntries_frame [OF pre_plain], intro ballI impI)
      fix y assume y: "y \<in> set (map ?f pre)" and ev: "evictable (mtime w) (now w) maxAge ?D y"
      then obtain z where z: "z \<in> set pre" "y = ?f z" by auto
      with ev have "stale w maxAge ?D z" by (simp add: evictable_stale)
      with False have "z \<noteq> x" by auto
      moreover from dist have "distinct (map fst pre)" by simp
      ultimately have "fst z \<noteq> fst x"
        using z(1) x by (intro distinct_fst_neq [of pre])
      with z(2) have "fst y \<noteq> fst x" by simp
      then show "\<not> prefix (?D @ [fst y]) (?D @ [fst x]) \<and> \<not> prefix (?D @ [fst x]) (?D @ [fst y])"
        using sibling_not_prefix [of "fst y" "fst x" ?D "[]"]
          sibling_not_prefix [of "fst x" "fst y" ?D "[]"] by simp
    qed
    with res ex [of x] x False show ?thesis by simp
  qed
  from tried later earlier show ?thesis by simp
qed

theorem cleanupOldBakedGames_stops_at_failure_witness:
  "stale locked_world default_maxAge (bakedGamesDir demo_cfg) (''baked-3333'', Dir []) \<and>
   bakedGamesDir demo_cfg @ [''baked-3333''] \<in> rm_denied locked_world \<and>
   fst (cleanupOldBakedGames_try demo_cfg default_maxAge locked_world) = Some EPERM \<and>
   lookup (fs (cleanupOldBakedGames demo_cfg default_maxAge locked_world))
     [''data'', ''baked-games'', ''baked-1111''] = None \<and>
   lookup (fs (cleanupOldBakedGames demo_cfg default_maxAge locked_world))
     [''data'', ''baked-games'', ''baked-2222''] = Some (Dir []) \<and>
   lookup (fs (cleanupOldBakedGames demo_cfg default_maxAge locked_world))
     [''data'', ''baked-games'', ''baked-3333''] = Some (Dir []) \<and>
   lookup (fs (cleanupOldBakedGames demo_cfg default_maxAge locked_world))
     [''data'', ''baked-games'', ''baked-4444''] = Some (Dir [])"
proof -
  let ?pre = "[(''baked-1111'', Dir [(''modinfo.lua'', File ''m'')]), (''baked-2222'', Dir [])]"
  let ?e = "(''baked-3333'', Dir [])"
  let ?post = "[(''baked-4444'', Dir []), (''baked-notes.txt'', File ''n''), (''tmp'', Dir [])]"
  have D: "bakedGamesDir demo_cfg = [''data'', ''baked-games'']"
    by (simp add: cache_eval fs_eval bakedGamesDir_def)
  have dir: "lookup (fs locked_world) (bakedGamesDir demo_cfg) = Some (Dir (?pre @ ?e # ?post))"
    by (simp add: cache_eval fs_eval bakedGamesDir_def)
  have wf: "wf_node (Dir (?pre @ ?e # ?post))"
    by (simp add: cache_eval)
  have st: "stale locked_world default_maxAge (bakedGamesDir demo_cfg) ?e"
    by (simp add: D cache_world_fields stale_def startsWith_def default_maxAge_def)
  have denied: "bakedGamesDir demo_cfg @ [fst ?e] \<in> rm_denied locked_world"
    by (simp add: D cache_world_fields)
  have pre: "\<forall>x \<in> set ?pre. stale locked_world default_maxAge (bakedGamesDir demo_cfg) x \<longrightarrow>
                bakedGamesDir demo_cfg @ [fst x] \<notin> rm_denied locked_world"
    by (simp add: D cache_world_fields)
  from cleanupOldBakedGames_stops_at_failure [OF dir wf st denied pre]
  have "fst (cleanupOldBakedGames_try demo_cfg default_maxAge locked_world) = Some EPERM"
    "lookup (fs (cleanupOldBakedGames demo_cfg default_maxAge locked_world))
       [''data'', ''baked-games'', ''baked-1111''] = None"
    "lookup (fs (cleanupOldBakedGames demo_cfg default_maxAge locked_world))
       [''data'', ''baked-games'', ''baked-2222''] = Some (Dir [])"
    "lookup (fs (cleanupOldBakedGames demo_cfg default_maxAge locked_world))
       [''data'', ''baked-games'', ''baked-3333''] = Some (Dir [])"
    "lookup (fs (cleanupOldBakedGames demo_cfg default_maxAge locked_world))
       [''data'', ''baked-games'', ''baked-4444''] = Some (Dir [])"
    by (simp_all add: D cache_world_fields stale_def startsWith_def default_maxAge_def
        del: lookup.simps)
  with st denied show ?thesis by simp
qed

text \<open>
  Claim C8 as stated fails: \<open>baked-4444\<close> is listed after the entry whose removal
  fails; it is old enough and its removal would succeed, and it is still there after
  the sweep.
\<close>

theorem cleanupOldBakedGames_aborts_counterexample:
  "stale locked_world default_maxAge [''data'', ''baked-games''] (''baked-4444'', Dir []) \<and>
   [''data'', ''baked-games'', ''baked-4444''] \<notin> rm_denied locked_world \<and>
   lookup (fs locked_world) [''data'', ''baked-games'', ''baked-4444''] = Some (Dir []) \<and>
   lookup (fs (cleanupOldBakedGames demo_cfg default_maxAge locked_world))
     [''data'', ''baked-games'', ''baked-4444''] = Some (Dir [])"
  by (simp add: cache_eval fs_eval service_eval)

end
